(* ===== verification/Rbkit_Prelude.thy ===== *)
theory Rbkit_Prelude
  imports Main "HOL-Library.Word"
begin

text \<open>
  What every component of the development shares: the C integer types of the
  64-bit build as words, the outcomes of C code that do not return normally, the
  sequencing of operations that may fail, a malloc'ed block of bytes, and the
  lemmas and lemma collections the component theories use.
\<close>

section \<open>C types\<close>

type_synonym byte = "8 word"
type_synonym size_t = "64 word"
type_synonym ulong = "64 word"
type_synonym c_int = "32 word"

text \<open>A Ruby \<open>VALUE\<close> (an object reference or an immediate) is one machine word.\<close>

type_synonym VALUE = "64 word"

text \<open>
  The bit pattern of a C \<open>double\<close>. The conversion from an integer is an argument of
  the definitions that use it.
\<close>

type_synonym double = "64 word"

named_theorems rbkit_inv \<open>operations keep their component's invariant\<close>
named_theorems rbkit_frame \<open>what an operation leaves unchanged\<close>

section \<open>Outcomes that are not a normal return\<close>

text \<open>
  The first seven are undefined behaviour, non-termination or a failed assertion of the C
  code, the others are Ruby exceptions, raised with \<open>rb_raise\<close> or by a conversion of
  Ruby's C API.
\<close>

datatype c_error =
    Null_dereference
  | Out_of_bounds
  | Use_after_free
  | Uninitialised_read
  | Bad_cast
  | No_return
  | Assertion_failed
  | NotImplementedError nat
  | ArgumentError
  | TypeError
  | RangeError
  | NameError
  | NoMethodError

text \<open>Sequencing: the rest runs only when the first part returned normally.\<close>

definition and_then :: "c_error + 'a \<Rightarrow> ('a \<Rightarrow> c_error + 'b) \<Rightarrow> c_error + 'b" where
  "and_then r k = (case r of Inl e \<Rightarrow> Inl e | Inr x \<Rightarrow> k x)"

lemma and_then_Inr [simp]: "and_then (Inr x) k = k x"
  by (simp add: and_then_def)

lemma and_then_Inl [simp]: "and_then (Inl e) k = Inl e"
  by (simp add: and_then_def)

lemma and_then_eq_Inr: "and_then r k = Inr y \<longleftrightarrow> (\<exists>x. r = Inr x \<and> k x = Inr y)"
  by (cases r) auto

lemma and_then_assoc: "and_then (and_then r k) l = and_then r (\<lambda>x. and_then (k x) l)"
  by (cases r) auto

definition returns :: "c_error + 'a \<Rightarrow> bool" where
  "returns r \<longleftrightarrow> (\<exists>x. r = Inr x)"

lemma returns_Inr [simp]: "returns (Inr x)"
  by (simp add: returns_def)

lemma returns_Inl [simp]: "\<not> returns (Inl e)"
  by (simp add: returns_def)

section \<open>C strings\<close>

text \<open>The characters of a buffer that the C string functions see: those before the first NUL.\<close>

definition c_str :: "string \<Rightarrow> string" where
  "c_str s = takeWhile (\<lambda>c. c \<noteq> CHR 0x00) s"

lemma c_str_no_nul: "CHR 0x00 \<notin> set s \<Longrightarrow> c_str s = s"
  unfolding c_str_def by (rule takeWhile_eq_all_conv [THEN iffD2]) auto

lemma c_str_idem [simp]: "c_str (c_str s) = c_str s"
  unfolding c_str_def by (simp add: takeWhile_takeWhile)

section \<open>A block of bytes on the C heap\<close>

text \<open>
  The cells of a block that were never written hold \<open>None\<close>: reading one is a read of
  uninitialised memory. Writing outside the block is an error of the model, not a
  silent no-op.
\<close>

record block =
  bsize :: nat
  cells :: "nat \<Rightarrow> byte option"

definition malloc_block :: "nat \<Rightarrow> block" where
  "malloc_block n = \<lparr>bsize = n, cells = (\<lambda>_. None)\<rparr>"

definition realloc_block :: "block \<Rightarrow> nat \<Rightarrow> block" where
  "realloc_block b n = \<lparr>bsize = n, cells = (\<lambda>i. if i < bsize b \<and> i < n then cells b i else None)\<rparr>"

definition write_block :: "block \<Rightarrow> nat \<Rightarrow> byte list \<Rightarrow> c_error + block" where
  "write_block b off bs =
     (if off + length bs \<le> bsize b
      then Inr (b\<lparr>cells := (\<lambda>i. if off \<le> i \<and> i < off + length bs
                               then Some (bs ! (i - off)) else cells b i)\<rparr>)
      else Inl Out_of_bounds)"

definition read_block :: "block \<Rightarrow> nat \<Rightarrow> c_error + byte list" where
  "read_block b n =
     (if bsize b < n then Inl Out_of_bounds
      else if \<exists>i\<in>{..<n}. cells b i = None then Inl Uninitialised_read
      else Inr (map (\<lambda>i. the (cells b i)) [0..<n]))"

text \<open>The block holds \<open>bs\<close> in its first cells.\<close>

definition holds_bytes :: "block \<Rightarrow> byte list \<Rightarrow> bool" where
  "holds_bytes b bs \<longleftrightarrow>
     length bs \<le> bsize b \<and> (\<forall>i<length bs. cells b i = Some (bs ! i))"

lemma holds_bytes_Nil [simp]: "holds_bytes b []"
  by (simp add: holds_bytes_def)

lemma holds_bytes_read: "holds_bytes b bs \<Longrightarrow> read_block b (length bs) = Inr bs"
  by (auto simp: holds_bytes_def read_block_def intro!: nth_equalityI)

lemma holds_bytes_realloc:
  "holds_bytes b bs \<Longrightarrow> bsize b \<le> n \<Longrightarrow> holds_bytes (realloc_block b n) bs"
  by (auto simp: holds_bytes_def realloc_block_def)

lemma holds_bytes_write:
  assumes "holds_bytes b bs" and "length bs + length cs \<le> bsize b"
  shows "\<exists>b'. write_block b (length bs) cs = Inr b' \<and> bsize b' = bsize b
           \<and> holds_bytes b' (bs @ cs)"
  using assms by (auto simp: write_block_def holds_bytes_def nth_append)

section \<open>Words\<close>

lemma unat_of_nat_small:
  "n < 2 ^ LENGTH('a::len) \<Longrightarrow> unat (of_nat n :: 'a word) = n"
  by (simp add: unat_of_nat)

lemma unat_add_small:
  fixes a b :: "'a::len word"
  shows "unat a + unat b < 2 ^ LENGTH('a) \<Longrightarrow> unat (a + b) = unat a + unat b"
  by (simp add: unat_word_ariths)

lemma unat_Suc_small:
  fixes a :: "'a::len word"
  assumes "unat a + 1 < 2 ^ LENGTH('a)"
  shows "unat (a + 1) = Suc (unat a)"
proof -
  show ?thesis using assms unat_add_small [of a 1] by simp
qed

lemma unat_pred:
  fixes a :: "'a::len word"
  shows "a \<noteq> 0 \<Longrightarrow> unat (a - 1) = unat a - 1"
  by (simp add: unat_minus_one)

text \<open>C's conversion of a \<open>size_t\<close> to \<open>int\<close> and back to a \<open>size_t\<close> argument.\<close>

definition through_int :: "nat \<Rightarrow> size_t" where
  "through_int n = scast (of_nat n :: c_int)"

lemma through_int_small:
  assumes "n < 2 ^ 31" shows "unat (through_int n) = n"
proof -
  have i: "sint (of_nat n :: c_int) = int n"
    using assms by (simp add: signed_of_nat signed_take_bit_int_eq_self)
  have "uint (through_int n) = take_bit 64 (int n)"
    unfolding through_int_def by (simp add: uint_sint signed_scast_eq i signed_take_bit_take_bit
      take_bit_signed_take_bit)
  then show ?thesis using assms by (simp add: take_bit_eq_mod unat_eq_nat_uint)
qed

section \<open>Lists cut into batches\<close>

text \<open>The list in consecutive pieces of \<open>n\<close> elements, the last one possibly shorter.\<close>

fun chunks :: "nat \<Rightarrow> 'a list \<Rightarrow> 'a list list" where
  "chunks n [] = []"
| "chunks n (x # xs) = take (max 1 n) (x # xs) # chunks n (drop (max 1 n) (x # xs))"

declare chunks.simps(2) [simp del]

lemma chunks_step: "xs \<noteq> [] \<Longrightarrow> 0 < n \<Longrightarrow> chunks n xs = take n xs # chunks n (drop n xs)"
  by (cases xs) (simp_all add: chunks.simps(2) max_def)

lemma concat_chunks [simp]: "concat (chunks n xs) = xs"
  by (induction n xs rule: chunks.induct) (simp_all add: chunks.simps(2))

lemma chunks_bounds: "c \<in> set (chunks n xs) \<Longrightarrow> 0 < n \<Longrightarrow> length c \<le> n \<and> c \<noteq> []"
proof (induction n xs rule: chunks.induct)
  case (1 n) then show ?case by simp
next
  case (2 n x xs) then show ?case by (auto simp: chunks.simps(2) max_def split: if_splits)
qed

lemma length_chunks: "0 < n \<Longrightarrow> length (chunks n xs) = (length xs + n - 1) div n"
proof (induction n xs rule: chunks.induct)
  case (1 n) then show ?case by simp
next
  case (2 n x xs)
  have m: "max 1 n = n" using 2(2) by simp
  show ?case
  proof (cases "length (x # xs) \<le> n")
    case True
    then have "(length (x # xs) + n - 1) div n = 1"
      using 2(2) by (intro div_nat_eqI) auto
    with True show ?thesis by (simp add: chunks.simps(2) m)
  next
    case False
    let ?k = "length (x # xs)"
    have "length (chunks n (x # xs)) = Suc (length (chunks n (drop n (x # xs))))"
      by (simp only: chunks.simps(2) m length_Cons)
    also have "length (chunks n (drop n (x # xs))) = (?k - n + n - 1) div n"
      using 2 by (simp only: m length_drop)
    also have "Suc ((?k - n + n - 1) div n) = (?k - n + n - 1 + n) div n"
      using 2(2) by (metis div_add_self2 Suc_eq_plus1 less_numeral_extra(3))
    also have "?k - n + n - 1 + n = ?k + n - 1"
      using False by simp
    finally show ?thesis .
  qed
qed

end
