(* ===== verification/Allocation_Info.thy ===== *)
theory Allocation_Info
  imports Rbkit_Prelude "HOL-Library.Multiset"
begin

text \<open>
  \<open>ext/rbkit_allocation_info.c\<close>: where each traced object was allocated. The path and
  class path of an object are C strings shared through a table of reference counts
  (\<open>make_unique_str\<close>, \<open>delete_unique_str\<close>); \<open>object_table\<close> maps an object to its record.

  An \<open>st_table\<close> is modelled by its contents. The string table compares keys with
  \<open>strcmp\<close>, so it is a map from the characters of a string to the stored key pointer
  and the stored count. The strings it allocates live on an explicit heap, so that a
  dangling pointer, a leak and a double free are visible.
\<close>

section \<open>The table of shared strings\<close>

type_synonym ptr = nat

record str_table =
  heap :: "ptr \<Rightarrow> string option"
  next_ptr :: ptr
  entries :: "string \<Rightarrow> (ptr \<times> size_t) option"

text \<open>\<open>st_init_strtable\<close>: no entries, nothing allocated.\<close>

definition st_init_strtable :: str_table where
  "st_init_strtable = \<lparr>heap = (\<lambda>_. None), next_ptr = 1, entries = (\<lambda>_. None)\<rparr>"

definition make_unique_str :: "str_table \<Rightarrow> string option \<Rightarrow> nat \<Rightarrow> ptr option \<times> str_table" where
  "make_unique_str tbl str len =
     (case str of
        None \<Rightarrow> (None, tbl)
      | Some s \<Rightarrow>
          (case entries tbl (c_str s) of
             Some (key, n) \<Rightarrow>
               (Some key, tbl\<lparr>entries := (entries tbl)(c_str s \<mapsto> (key, n + 1))\<rparr>)
           | None \<Rightarrow>
               (let result = next_ptr tbl; copy = c_str (take len s)
                in (Some result,
                    tbl\<lparr>heap := (heap tbl)(result \<mapsto> copy), next_ptr := result + 1,
                        entries := (entries tbl)(copy \<mapsto> (result, 1))\<rparr>))))"

definition delete_unique_str :: "str_table \<Rightarrow> ptr option \<Rightarrow> c_error + str_table" where
  "delete_unique_str tbl str =
     (case str of
        None \<Rightarrow> Inr tbl
      | Some p \<Rightarrow>
          (case heap tbl p of
             None \<Rightarrow> Inl Use_after_free
           | Some s \<Rightarrow>
               (case entries tbl s of
                  None \<Rightarrow> Inl Uninitialised_read
                | Some (key, n) \<Rightarrow>
                    if n = 1
                    then Inr (tbl\<lparr>entries := (entries tbl)(s := None),
                                 heap := (heap tbl)(key := None)\<rparr>)
                    else Inr (tbl\<lparr>entries := (entries tbl)(s \<mapsto> (key, n - 1))\<rparr>))))"

text \<open>
  \<open>held R tbl\<close>: the clients hold the pointers of the multiset \<open>R\<close>. Every entry's count
  is the number of times its pointer is held, every held pointer is the key of an
  entry, and exactly the held strings are allocated.
\<close>

definition held :: "ptr multiset \<Rightarrow> str_table \<Rightarrow> bool" where
  "held R tbl \<longleftrightarrow>
     (\<forall>s p n. entries tbl s = Some (p, n) \<longrightarrow>
        heap tbl p = Some s \<and> unat n = count R p \<and> p \<in># R)
   \<and> (\<forall>p. p \<in># R \<longrightarrow> (\<exists>s n. entries tbl s = Some (p, n)))
   \<and> (\<forall>p. heap tbl p \<noteq> None \<longrightarrow> p \<in># R \<and> p < next_ptr tbl)"

text \<open>The optional pointer of a record field, as a multiset of held pointers.\<close>

definition opt_mset :: "'a option \<Rightarrow> 'a multiset" where
  "opt_mset x = (case x of None \<Rightarrow> {#} | Some a \<Rightarrow> {#a#})"

lemma opt_mset_simps [simp]: "opt_mset None = {#}" "opt_mset (Some a) = {#a#}"
  by (simp_all add: opt_mset_def)

lemma size_opt_mset: "size (opt_mset x) \<le> 1"
  by (cases x) auto

section \<open>The interface: interned strings\<close>

text \<open>
  What the object table relies on. \<open>make\<close> and \<open>release\<close> are the two operations,
  \<open>owned R s\<close> says that the clients hold the pointers \<open>R\<close>, and \<open>text s p\<close> is the string
  a pointer refers to.
\<close>

locale interned_strings =
  fixes make :: "'s \<Rightarrow> string option \<Rightarrow> nat \<Rightarrow> ptr option \<times> 's"
    and release :: "'s \<Rightarrow> ptr option \<Rightarrow> c_error + 's"
    and owned :: "ptr multiset \<Rightarrow> 's \<Rightarrow> bool"
    and text_of :: "'s \<Rightarrow> ptr \<Rightarrow> string option"
  assumes make_None: "make s None len = (None, s)"
    and make_Some: "owned R s \<Longrightarrow> size R < 2 ^ 64 - 1 \<Longrightarrow>
      \<exists>p s'. make s (Some str) (length str) = (Some p, s') \<and> owned (add_mset p R) s'
        \<and> text_of s' p = Some (c_str str) \<and> (\<forall>q. q \<in># R \<longrightarrow> text_of s' q = text_of s q)"
    and release_None: "release s None = Inr s"
    and release_Some: "owned (add_mset p R) s \<Longrightarrow>
      \<exists>s'. release s (Some p) = Inr s' \<and> owned R s' \<and> (\<forall>q. q \<in># R \<longrightarrow> text_of s' q = text_of s q)"
begin

text \<open>Both operations on an optional string.\<close>

lemma make_opt:
  assumes "owned R s" and "size R < 2 ^ 64 - 1"
  obtains r s' where "make s str (case str of None \<Rightarrow> 0 | Some t \<Rightarrow> length t) = (r, s')"
    and "owned (opt_mset r + R) s'"
    and "map_option (text_of s') r = map_option (\<lambda>t. Some (c_str t)) str"
    and "\<And>q. q \<in># R \<Longrightarrow> text_of s' q = text_of s q"
proof (cases str)
  case None
  with assms that [of None s] show ?thesis by (simp add: make_None)
next
  case (Some t)
  from make_Some [OF assms, of t] obtain p s' where
    "make s (Some t) (length t) = (Some p, s')" "owned (add_mset p R) s'"
    "text_of s' p = Some (c_str t)" "\<forall>q. q \<in># R \<longrightarrow> text_of s' q = text_of s q"
    by blast
  with Some that [of "Some p" s'] show ?thesis by simp
qed

lemma release_opt:
  assumes "owned (opt_mset r + R) s"
  obtains s' where "release s r = Inr s'" and "owned R s'"
    and "\<And>q. q \<in># R \<Longrightarrow> text_of s' q = text_of s q"
proof (cases r)
  case None
  with assms that [of s] show ?thesis by (simp add: release_None)
next
  case (Some p)
  with assms have "owned (add_mset p R) s" by simp
  from release_Some [OF this] Some that show ?thesis by auto
qed

text \<open>Releasing the two pointers of a record.\<close>

lemma release_two:
  assumes "owned (opt_mset a + opt_mset b + R) s"
  obtains s' where "and_then (release s a) (\<lambda>s. release s b) = Inr s'" and "owned R s'"
    and "\<And>q. q \<in># R \<Longrightarrow> text_of s' q = text_of s q"
proof -
  have "owned (opt_mset a + (opt_mset b + R)) s" using assms by (simp add: add.assoc)
  then obtain s1 where 1: "release s a = Inr s1" "owned (opt_mset b + R) s1"
    "\<And>q. q \<in># opt_mset b + R \<Longrightarrow> text_of s1 q = text_of s q"
    by (rule release_opt) blast
  from 1(2) obtain s2 where 2: "release s1 b = Inr s2" "owned R s2"
    "\<And>q. q \<in># R \<Longrightarrow> text_of s2 q = text_of s1 q"
    by (rule release_opt) blast
  show ?thesis by (rule that [of s2]) (use 1 2 in auto)
qed

end

subsection \<open>The reference-counted table provides it\<close>

lemma held_entry:
  "held R tbl \<Longrightarrow> entries tbl s = Some (p, n) \<Longrightarrow>
     heap tbl p = Some s \<and> unat n = count R p \<and> p \<in># R"
  by (simp add: held_def)

lemma held_ptr: "held R tbl \<Longrightarrow> p \<in># R \<Longrightarrow> \<exists>s n. entries tbl s = Some (p, n)"
  by (simp add: held_def)

lemma held_heap: "held R tbl \<Longrightarrow> heap tbl p = Some s \<Longrightarrow> p \<in># R \<and> p < next_ptr tbl"
  by (auto simp: held_def)

lemma held_live: "held R tbl \<Longrightarrow> p \<in># R \<Longrightarrow> heap tbl p \<noteq> None"
  using held_ptr held_entry by fastforce

lemma held_key_unique:
  "held R tbl \<Longrightarrow> entries tbl s = Some (p, n) \<Longrightarrow> entries tbl t = Some (p, m) \<Longrightarrow> s = t"
  using held_entry [of R tbl s p n] held_entry [of R tbl t p m] by auto

lemma heldI:
  assumes "\<And>s p n. entries tbl s = Some (p, n) \<Longrightarrow> heap tbl p = Some s"
    and "\<And>s p n. entries tbl s = Some (p, n) \<Longrightarrow> unat n = count R p \<and> p \<in># R"
    and "\<And>p. p \<in># R \<Longrightarrow> \<exists>s n. entries tbl s = Some (p, n)"
    and "\<And>p s. heap tbl p = Some s \<Longrightarrow> p \<in># R \<and> p < next_ptr tbl"
  shows "held R tbl"
  using assms by (auto simp: held_def)

text \<open>Writing a new count for an entry, when only its own pointer is held differently often.\<close>

lemma held_recount:
  assumes h: "held R tbl" and e: "entries tbl s = Some (p, n)"
    and m: "unat m = count R' p" "p \<in># R'" and other: "\<And>q. q \<noteq> p \<Longrightarrow> count R' q = count R q"
  shows "held R' (tbl\<lparr>entries := (entries tbl)(s \<mapsto> (p, m))\<rparr>)"
proof -
  have mem: "q \<in># R' \<longleftrightarrow> q \<in># R" for q
    using other [of q] m(2) held_entry [OF h e] by (metis count_greater_zero_iff)
  show ?thesis
  proof (rule heldI)
    let ?tbl = "tbl\<lparr>entries := (entries tbl)(s \<mapsto> (p, m))\<rparr>"
    show "\<exists>t k. entries ?tbl t = Some (q, k)" if "q \<in># R'" for q
    proof (cases "q = p")
      case True then show ?thesis by (auto intro: exI [of _ s])
    next
      case False
      from that mem held_ptr [OF h, of q] obtain t k where t: "entries tbl t = Some (q, k)" by auto
      with e False have "t \<noteq> s" by auto
      with t show ?thesis by (intro exI [of _ t]) auto
    qed
    show "q \<in># R' \<and> q < next_ptr ?tbl" if "heap ?tbl q = Some t" for q t
      using that held_heap [OF h] mem by auto
    fix t q k assume t: "entries ?tbl t = Some (q, k)"
    have "heap ?tbl q = Some t \<and> unat k = count R' q \<and> q \<in># R'"
    proof (cases "t = s")
      case True
      with t m held_entry [OF h e] show ?thesis by auto
    next
      case False
      with t have t': "entries tbl t = Some (q, k)" by simp
      with held_key_unique [OF h e] False have "q \<noteq> p" by blast
      with held_entry [OF h t'] other mem show ?thesis by auto
    qed
    then show "heap ?tbl q = Some t" "unat k = count R' q \<and> q \<in># R'" by auto
  qed
qed

lemma held_make:
  assumes h: "held R tbl" and sz: "size R < 2 ^ 64 - 1"
  shows "\<exists>p tbl'. make_unique_str tbl (Some str) (length str) = (Some p, tbl')
    \<and> held (add_mset p R) tbl' \<and> heap tbl' p = Some (c_str str)
    \<and> (\<forall>q. q \<in># R \<longrightarrow> heap tbl' q = heap tbl q)"
proof (cases "entries tbl (c_str str)")
  case None
  have fresh: "heap tbl (next_ptr tbl) = None"
    using held_heap [OF h, of "next_ptr tbl"] by (cases "heap tbl (next_ptr tbl)") auto
  then have "next_ptr tbl \<notin># R"
    using held_live [OF h] by blast
  note fresh = fresh this
  let ?tbl = "tbl\<lparr>heap := (heap tbl)(next_ptr tbl \<mapsto> c_str str), next_ptr := next_ptr tbl + 1,
    entries := (entries tbl)(c_str str \<mapsto> (next_ptr tbl, 1))\<rparr>"
  have "held (add_mset (next_ptr tbl) R) ?tbl"
  proof (rule heldI)
    show "\<exists>s n. entries ?tbl s = Some (q, n)" if q: "q \<in># add_mset (next_ptr tbl) R" for q
    proof (cases "q = next_ptr tbl")
      case False
      with q held_ptr [OF h, of q] obtain s n where "entries tbl s = Some (q, n)" by auto
      with None show ?thesis by (intro exI [of _ s]) auto
    qed (auto intro: exI [of _ "c_str str"])
  next
    show "q \<in># add_mset (next_ptr tbl) R \<and> q < next_ptr ?tbl" if "heap ?tbl q = Some s" for q s
      using that held_heap [OF h, of q s] by (auto split: if_splits)
  next
    fix s q n assume e: "entries ?tbl s = Some (q, n)"
    show "heap ?tbl q = Some s"
      using e held_entry [OF h, of s q n] fresh by (auto split: if_splits)
    show "unat n = count (add_mset (next_ptr tbl) R) q \<and> q \<in># add_mset (next_ptr tbl) R"
      using e held_entry [OF h, of s q n] fresh by (auto simp: not_in_iff split: if_splits)
  qed
  with None fresh show ?thesis by (auto simp: make_unique_str_def Let_def)
next
  case (Some e)
  obtain p n where e: "e = (p, n)" by (cases e)
  have n: "unat n = count R p" "heap tbl p = Some (c_str str)" "p \<in># R"
    using h Some e by (auto simp: held_def)
  have "unat (n + 1) = Suc (unat n)"
    using n(1) count_le_size [of R p] sz by (intro unat_Suc_small) simp
  with n have "held (add_mset p R) (tbl\<lparr>entries := (entries tbl)(c_str str \<mapsto> (p, n + 1))\<rparr>)"
    using Some e by (intro held_recount [OF h]) auto
  with Some e n show ?thesis by (auto simp: make_unique_str_def)
qed

lemma held_delete:
  assumes h: "held (add_mset p R) tbl"
  shows "\<exists>tbl'. delete_unique_str tbl (Some p) = Inr tbl' \<and> held R tbl'
    \<and> (\<forall>q. q \<in># R \<longrightarrow> heap tbl' q = heap tbl q)"
proof -
  from h obtain s n where e: "entries tbl s = Some (p, n)" by (auto simp: held_def)
  with h have n: "unat n = Suc (count R p)" "heap tbl p = Some s" by (auto simp: held_def)
  show ?thesis
  proof (cases "n = 1")
    case True
    with n(1) have R: "p \<notin># R" by (simp add: not_in_iff)
    let ?tbl = "tbl\<lparr>entries := (entries tbl)(s := None), heap := (heap tbl)(p := None)\<rparr>"
    have other: "q \<noteq> p" if "t \<noteq> s" "entries tbl t = Some (q, m)" for t q m
      using held_key_unique [OF h e] that by blast
    have "held R ?tbl"
    proof (rule heldI)
      show "\<exists>t m. entries ?tbl t = Some (q, m)" if "q \<in># R" for q
      proof -
        from that R have "q \<in># add_mset p R" "q \<noteq> p" by auto
        with held_ptr [OF h] obtain t m where "entries tbl t = Some (q, m)" by blast
        with e \<open>q \<noteq> p\<close> show ?thesis by (intro exI [of _ t]) auto
      qed
    next
      show "q \<in># R \<and> q < next_ptr ?tbl" if "heap ?tbl q = Some t" for q t
        using that held_heap [OF h, of q t] by (auto split: if_splits)
    next
      fix t q m assume "entries ?tbl t = Some (q, m)"
      then have t: "t \<noteq> s" "entries tbl t = Some (q, m)" by (auto split: if_splits)
      then have "q \<noteq> p" by (rule other)
      with held_entry [OF h t(2)] show "heap ?tbl q = Some t" "unat m = count R q \<and> q \<in># R"
        by auto
    qed
    with h e n True R show ?thesis
      by (auto simp: delete_unique_str_def)
  next
    case False
    have "n \<noteq> 0" using n(1) by auto
    then have "unat (n - 1) = count R p" using n(1) by (simp add: unat_pred)
    moreover from False n(1) have "p \<in># R"
      by (metis One_nat_def count_eq_zero_iff unat_1 unsigned_word_eqI)
    ultimately have "held R (tbl\<lparr>entries := (entries tbl)(s \<mapsto> (p, n - 1))\<rparr>)"
      using e by (intro held_recount [OF h]) auto
    with e n False show ?thesis by (auto simp: delete_unique_str_def)
  qed
qed

interpretation strs: interned_strings make_unique_str delete_unique_str held heap
proof unfold_locales
  fix tbl :: str_table and R str p
  show "make_unique_str tbl None len = (None, tbl)" for len
    by (simp add: make_unique_str_def)
  show "delete_unique_str tbl None = Inr tbl"
    by (simp add: delete_unique_str_def)
  show "held R tbl \<Longrightarrow> size R < 2 ^ 64 - 1 \<Longrightarrow>
    \<exists>p tbl'. make_unique_str tbl (Some str) (length str) = (Some p, tbl')
      \<and> held (add_mset p R) tbl' \<and> heap tbl' p = Some (c_str str)
      \<and> (\<forall>q. q \<in># R \<longrightarrow> heap tbl' q = heap tbl q)"
    by (rule held_make)
  show "held (add_mset p R) tbl \<Longrightarrow> \<exists>tbl'. delete_unique_str tbl (Some p) = Inr tbl' \<and> held R tbl'
    \<and> (\<forall>q. q \<in># R \<longrightarrow> heap tbl' q = heap tbl q)"
    by (rule held_delete)
qed

section \<open>Allocation records\<close>

record rbkit_allocation_info =
  ai_path :: "ptr option"
  ai_line :: ulong
  ai_class_path :: "ptr option"
  ai_method_id :: VALUE
  ai_generation :: size_t

type_synonym object_table = "VALUE \<Rightarrow> rbkit_allocation_info option"

text \<open>
  What the VM's trace argument answers: the object, the path and the class path when
  they are not nil, the line, the method. A defined class is asked for its class path
  only when it is not frozen.
\<close>

record defined_class =
  dc_frozen :: bool
  dc_class_path :: "string option"

record trace_arg =
  tp_object :: VALUE
  tp_path :: "string option"
  tp_lineno :: c_int
  tp_method_id :: VALUE
  tp_defined_class :: "defined_class option"

definition tp_class_path :: "trace_arg \<Rightarrow> string option" where
  "tp_class_path tparg =
     (case tp_defined_class tparg of
        None \<Rightarrow> None
      | Some k \<Rightarrow> if dc_frozen k then None else dc_class_path k)"

text \<open>\<open>make_unique_str\<close> on a Ruby string or nil: \<open>RSTRING_LEN\<close> is the string's length.\<close>

definition make_unique_rstring :: "str_table \<Rightarrow> string option \<Rightarrow> ptr option \<times> str_table" where
  "make_unique_rstring tbl str =
     make_unique_str tbl str (case str of None \<Rightarrow> 0 | Some t \<Rightarrow> length t)"

definition new_rbkit_allocation_info ::
  "size_t \<Rightarrow> trace_arg \<Rightarrow> str_table \<Rightarrow> object_table
     \<Rightarrow> c_error + rbkit_allocation_info \<times> str_table \<times> object_table" where
  "new_rbkit_allocation_info gc_count tparg tbl objects =
     (let obj = tp_object tparg;
          (path, tbl) = make_unique_rstring tbl (tp_path tparg);
          (class_path, tbl) = make_unique_rstring tbl (tp_class_path tparg);
          info = \<lparr>ai_path = path, ai_line = scast (tp_lineno tparg), ai_class_path = class_path,
                  ai_method_id = tp_method_id tparg, ai_generation = gc_count\<rparr>
      in and_then
           (case objects obj of
              Some old \<Rightarrow>
                and_then (delete_unique_str tbl (ai_path old))
                  (\<lambda>tbl. delete_unique_str tbl (ai_class_path old))
            | None \<Rightarrow> Inr tbl)
           (\<lambda>tbl. Inr (info, tbl, objects(obj \<mapsto> info))))"

definition delete_rbkit_allocation_info ::
  "VALUE \<Rightarrow> str_table \<Rightarrow> object_table \<Rightarrow> c_error + str_table \<times> object_table" where
  "delete_rbkit_allocation_info obj tbl objects =
     (case objects obj of
        None \<Rightarrow> Inr (tbl, objects)
      | Some info \<Rightarrow>
          and_then (delete_unique_str tbl (ai_path info)) (\<lambda>tbl.
          and_then (delete_unique_str tbl (ai_class_path info)) (\<lambda>tbl.
          Inr (tbl, objects(obj := None)))))"

subsection \<open>The invariant\<close>

text \<open>The string pointers a record holds, and those the whole table holds.\<close>

definition info_refs :: "rbkit_allocation_info \<Rightarrow> ptr multiset" where
  "info_refs i = opt_mset (ai_path i) + opt_mset (ai_class_path i)"

definition object_refs :: "object_table \<Rightarrow> ptr multiset" where
  "object_refs objects = (\<Sum>v\<in>dom objects. info_refs (the (objects v)))"

definition alloc_inv :: "str_table \<Rightarrow> object_table \<Rightarrow> bool" where
  "alloc_inv tbl objects \<longleftrightarrow> held (object_refs objects) tbl"

lemma finite_dom_objects [simp]: "finite (dom (objects :: object_table))"
  by (rule finite_subset [OF subset_UNIV]) simp

lemma object_refs_empty [simp]: "object_refs (\<lambda>_. None) = {#}"
  by (simp add: object_refs_def)

lemma object_refs_remove:
  "objects v = Some i \<Longrightarrow> object_refs objects = info_refs i + object_refs (objects(v := None))"
  unfolding object_refs_def
  by (subst sum.remove [of _ v]) (auto intro!: arg_cong2 [where f = "(+)"] sum.cong)

lemma object_refs_update:
  "object_refs (objects(v \<mapsto> i)) = info_refs i + object_refs (objects(v := None))"
  using object_refs_remove [of "objects(v \<mapsto> i)" v i] by simp

lemma object_refs_absent: "objects v = None \<Longrightarrow> objects(v := None) = objects"
  by (simp add: fun_upd_idem)

lemma info_refs_member: "objects v = Some i \<Longrightarrow> p \<in># info_refs i \<Longrightarrow> p \<in># object_refs objects"
  by (simp add: object_refs_remove)

lemma size_object_refs: "size (object_refs objects) \<le> 2 * card (dom objects)"
proof -
  have s: "size (info_refs i) \<le> 2" for i
    using size_opt_mset [of "ai_path i"] size_opt_mset [of "ai_class_path i"]
    by (simp add: info_refs_def)
  have "size (object_refs objects) = (\<Sum>v\<in>dom objects. size (info_refs (the (objects v))))"
    unfolding object_refs_def by (induction "dom objects" rule: infinite_finite_induct) auto
  also have "\<dots> \<le> (\<Sum>v\<in>dom objects. 2)" by (rule sum_mono) (rule s)
  finally show ?thesis by simp
qed

subsection \<open>The abstract table\<close>

text \<open>
  Without pointers: what is known of each object, its strings by content. This is what
  the two operations promise: an update, and a removal.
\<close>

type_synonym alloc_data = "string option \<times> ulong \<times> string option \<times> VALUE \<times> size_t"

definition resolve :: "str_table \<Rightarrow> ptr option \<Rightarrow> string option" where
  "resolve tbl p = Option.bind p (heap tbl)"

definition info_data :: "str_table \<Rightarrow> rbkit_allocation_info \<Rightarrow> alloc_data" where
  "info_data tbl i = (resolve tbl (ai_path i), ai_line i, resolve tbl (ai_class_path i),
                      ai_method_id i, ai_generation i)"

definition alloc_view :: "str_table \<Rightarrow> object_table \<Rightarrow> VALUE \<Rightarrow> alloc_data option" where
  "alloc_view tbl objects v = map_option (info_data tbl) (objects v)"

definition arg_data :: "size_t \<Rightarrow> trace_arg \<Rightarrow> alloc_data" where
  "arg_data gc_count tparg =
     (map_option c_str (tp_path tparg), scast (tp_lineno tparg),
      map_option c_str (tp_class_path tparg), tp_method_id tparg, gc_count)"

lemma resolve_cong:
  "(\<And>q. q \<in># opt_mset p \<Longrightarrow> heap tbl' q = heap tbl q) \<Longrightarrow> resolve tbl' p = resolve tbl p"
  by (cases p) (auto simp: resolve_def)

lemma info_data_cong:
  assumes "\<And>q. q \<in># info_refs i \<Longrightarrow> heap tbl' q = heap tbl q"
  shows "info_data tbl' i = info_data tbl i"
  using assms resolve_cong [of "ai_path i" tbl' tbl] resolve_cong [of "ai_class_path i" tbl' tbl]
  by (simp add: info_data_def info_refs_def)

text \<open>Strings that stay allocated keep the records of the objects other than \<open>v\<close>.\<close>

lemma alloc_view_frame:
  assumes "\<And>q. q \<in># object_refs (objects(v := None)) \<Longrightarrow> heap tbl' q = heap tbl q"
  shows "w \<noteq> v \<Longrightarrow> alloc_view tbl' objects w = alloc_view tbl objects w"
proof (cases "objects w")
  case (Some i)
  assume "w \<noteq> v"
  with Some have "(objects(v := None)) w = Some i" by simp
  then have "q \<in># object_refs (objects(v := None))" if "q \<in># info_refs i" for q
    using that by (rule info_refs_member)
  with assms have "info_data tbl' i = info_data tbl i" by (blast intro: info_data_cong)
  with Some show ?thesis by (simp add: alloc_view_def)
qed (simp add: alloc_view_def)

lemma make_rstring:
  assumes "held R tbl" and "size R < 2 ^ 64 - 1"
  obtains r tbl' where "make_unique_rstring tbl str = (r, tbl')"
    and "held (opt_mset r + R) tbl'" and "resolve tbl' r = map_option c_str str"
    and "\<And>q. q \<in># R \<Longrightarrow> heap tbl' q = heap tbl q"
proof -
  from strs.make_opt [OF assms, of str] obtain r tbl' where
    "make_unique_rstring tbl str = (r, tbl')" "held (opt_mset r + R) tbl'"
    "map_option (heap tbl') r = map_option (\<lambda>t. Some (c_str t)) str"
    "\<And>q. q \<in># R \<Longrightarrow> heap tbl' q = heap tbl q"
    unfolding make_unique_rstring_def by metis
  with that show ?thesis by (cases r; cases str) (auto simp: resolve_def)
qed

text \<open>The two strings of a new record, made one after the other.\<close>

lemma make_two:
  assumes "held R tbl" and "size R < 2 ^ 64 - 2"
  obtains p tbl1 c tbl2 where "make_unique_rstring tbl s = (p, tbl1)"
    and "make_unique_rstring tbl1 t = (c, tbl2)"
    and "held (opt_mset p + opt_mset c + R) tbl2"
    and "resolve tbl2 p = map_option c_str s" and "resolve tbl2 c = map_option c_str t"
    and "\<And>q. q \<in># R \<Longrightarrow> heap tbl2 q = heap tbl q"
proof -
  from assms(2) have "size R < 2 ^ 64 - 1" by simp
  from make_rstring [OF assms(1) this, of s] obtain p tbl1 where 1:
    "make_unique_rstring tbl s = (p, tbl1)" "held (opt_mset p + R) tbl1"
    "resolve tbl1 p = map_option c_str s" "\<And>q. q \<in># R \<Longrightarrow> heap tbl1 q = heap tbl q"
    by metis
  have "size (opt_mset p + R) < 2 ^ 64 - 1" using assms(2) size_opt_mset [of p] by simp
  from make_rstring [OF 1(2) this, of t] obtain c tbl2 where 2:
    "make_unique_rstring tbl1 t = (c, tbl2)" "held (opt_mset c + (opt_mset p + R)) tbl2"
    "resolve tbl2 c = map_option c_str t" "\<And>q. q \<in># opt_mset p + R \<Longrightarrow> heap tbl2 q = heap tbl1 q"
    by metis
  show ?thesis
  proof (rule that [OF 1(1) 2(1)])
    show "held (opt_mset p + opt_mset c + R) tbl2" using 2(2) by (simp add: ac_simps)
    show "resolve tbl2 p = map_option c_str s"
      using resolve_cong [of p tbl2 tbl1] 2(4) 1(3) by simp
    show "resolve tbl2 c = map_option c_str t" by (rule 2(3))
    show "heap tbl2 q = heap tbl q" if "q \<in># R" for q using 1(4) 2(4) that by simp
  qed
qed

text \<open>
  The tracker of new objects: it never reads a freed string or an absent entry, keeps the
  reference counts exact, and updates the abstract table at the object alone.
\<close>

lemma new_info_correct:
  assumes inv: "alloc_inv tbl objects" and few: "card (dom objects) < 2 ^ 62"
  shows "\<exists>info tbl' objects'.
    new_rbkit_allocation_info gc_count tparg tbl objects = Inr (info, tbl', objects')
    \<and> alloc_inv tbl' objects' \<and> objects' (tp_object tparg) = Some info
    \<and> alloc_view tbl' objects' = (alloc_view tbl objects)(tp_object tparg \<mapsto> arg_data gc_count tparg)"
proof -
  let ?v = "tp_object tparg" and ?R = "object_refs objects"
  let ?Rest = "object_refs (objects(?v := None))"
  from inv have h: "held ?R tbl" by (simp add: alloc_inv_def)
  have sz: "size ?R < 2 ^ 64 - 2" using size_object_refs [of objects] few by simp
  from make_two [OF h sz, of "tp_path tparg" "tp_class_path tparg"]
  obtain p tbl1 c tbl2 where m: "make_unique_rstring tbl (tp_path tparg) = (p, tbl1)"
    "make_unique_rstring tbl1 (tp_class_path tparg) = (c, tbl2)"
    and h2: "held (opt_mset p + opt_mset c + ?R) tbl2"
    and t2: "resolve tbl2 p = map_option c_str (tp_path tparg)"
            "resolve tbl2 c = map_option c_str (tp_class_path tparg)"
    and f2: "\<And>q. q \<in># ?R \<Longrightarrow> heap tbl2 q = heap tbl q"
    by metis
  define info where "info = \<lparr>ai_path = p, ai_line = scast (tp_lineno tparg), ai_class_path = c,
                  ai_method_id = tp_method_id tparg, ai_generation = gc_count\<rparr>"
  obtain tbl3 where r: "(case objects ?v of
      Some old \<Rightarrow> and_then (delete_unique_str tbl2 (ai_path old))
                  (\<lambda>tbl. delete_unique_str tbl (ai_class_path old))
    | None \<Rightarrow> Inr tbl2) = Inr tbl3"
    and h3: "held (opt_mset p + opt_mset c + ?Rest) tbl3"
    and f3: "\<And>q. q \<in># opt_mset p + opt_mset c + ?Rest \<Longrightarrow> heap tbl3 q = heap tbl2 q"
  proof (cases "objects ?v")
    case None
    with h2 have "held (opt_mset p + opt_mset c + ?Rest) tbl2" by (simp only: object_refs_absent)
    with None that [of tbl2] show ?thesis by simp
  next
    case (Some old)
    have "held (opt_mset (ai_path old) + opt_mset (ai_class_path old)
                + (opt_mset p + opt_mset c + ?Rest)) tbl2"
      using h2 object_refs_remove [of objects ?v, OF Some] by (simp add: info_refs_def ac_simps)
    from strs.release_two [OF this] obtain tbl3 where
      "and_then (delete_unique_str tbl2 (ai_path old))
         (\<lambda>tbl. delete_unique_str tbl (ai_class_path old)) = Inr tbl3"
      "held (opt_mset p + opt_mset c + ?Rest) tbl3"
      "\<And>q. q \<in># opt_mset p + opt_mset c + ?Rest \<Longrightarrow> heap tbl3 q = heap tbl2 q" by blast
    with Some that [of tbl3] show ?thesis by simp
  qed
  have sub: "q \<in># ?R" if "q \<in># ?Rest" for q
    using that object_refs_remove [of objects ?v] by (cases "objects ?v") (auto simp: object_refs_absent)
  have eq: "new_rbkit_allocation_info gc_count tparg tbl objects = Inr (info, tbl3, objects(?v \<mapsto> info))"
    unfolding new_rbkit_allocation_info_def Let_def
    by (simp add: m r flip: info_def)
  have inv': "alloc_inv tbl3 (objects(?v \<mapsto> info))"
    using h3 by (simp add: alloc_inv_def object_refs_update info_refs_def info_def)
  have "alloc_view tbl3 (objects(?v \<mapsto> info)) ?v = Some (arg_data gc_count tparg)"
    using t2 f3 resolve_cong [of p tbl3 tbl2] resolve_cong [of c tbl3 tbl2]
    by (simp add: alloc_view_def info_data_def info_def arg_data_def)
  moreover have "alloc_view tbl3 (objects(?v \<mapsto> info)) w = alloc_view tbl objects w" if "w \<noteq> ?v" for w
  proof -
    have "alloc_view tbl3 objects w = alloc_view tbl objects w"
      using that f2 f3 sub by (intro alloc_view_frame [of objects ?v]) auto
    with that show ?thesis by (simp add: alloc_view_def)
  qed
  ultimately show ?thesis using eq inv' by fastforce
qed

lemma delete_info_correct:
  assumes inv: "alloc_inv tbl objects"
  shows "\<exists>tbl' objects'. delete_rbkit_allocation_info v tbl objects = Inr (tbl', objects')
    \<and> alloc_inv tbl' objects' \<and> alloc_view tbl' objects' = (alloc_view tbl objects)(v := None)"
proof (cases "objects v")
  case None
  with inv show ?thesis
    by (auto simp: delete_rbkit_allocation_info_def alloc_view_def)
next
  case (Some info)
  let ?Rest = "object_refs (objects(v := None))"
  have "held (opt_mset (ai_path info) + opt_mset (ai_class_path info) + ?Rest) tbl"
    using inv object_refs_remove [of objects v, OF Some] by (simp add: alloc_inv_def info_refs_def)
  from strs.release_two [OF this] obtain tbl' where
    r: "and_then (delete_unique_str tbl (ai_path info))
         (\<lambda>tbl. delete_unique_str tbl (ai_class_path info)) = Inr tbl'"
    and h: "held ?Rest tbl'" and f: "\<And>q. q \<in># ?Rest \<Longrightarrow> heap tbl' q = heap tbl q" by blast
  have "delete_rbkit_allocation_info v tbl objects = Inr (tbl', objects(v := None))"
    using Some r by (auto simp: delete_rbkit_allocation_info_def and_then_eq_Inr)
  moreover have "alloc_view tbl' (objects(v := None)) w = ((alloc_view tbl objects)(v := None)) w" for w
    using alloc_view_frame [of objects v tbl' tbl w] f by (auto simp: alloc_view_def)
  ultimately show ?thesis using h by (auto simp: alloc_inv_def)
qed

section \<open>Any sequence of allocations and frees\<close>

text \<open>The two tracepoint hooks call the operations in the order the VM fires them.\<close>

datatype alloc_event = Object_new size_t trace_arg | Object_free VALUE

fun alloc_run :: "alloc_event list \<Rightarrow> str_table \<Rightarrow> object_table \<Rightarrow> c_error + str_table \<times> object_table"
where
  "alloc_run [] tbl objects = Inr (tbl, objects)"
| "alloc_run (Object_new gc t # es) tbl objects =
     and_then (new_rbkit_allocation_info gc t tbl objects)
       (\<lambda>(info, tbl, objects). alloc_run es tbl objects)"
| "alloc_run (Object_free v # es) tbl objects =
     and_then (delete_rbkit_allocation_info v tbl objects)
       (\<lambda>(tbl, objects). alloc_run es tbl objects)"

fun view_run :: "alloc_event list \<Rightarrow> (VALUE \<Rightarrow> alloc_data option) \<Rightarrow> VALUE \<Rightarrow> alloc_data option" where
  "view_run [] m = m"
| "view_run (Object_new gc t # es) m = view_run es (m(tp_object t \<mapsto> arg_data gc t))"
| "view_run (Object_free v # es) m = view_run es (m(v := None))"

lemma dom_alloc_view: "dom (alloc_view tbl objects) = dom objects"
  by (auto simp: alloc_view_def dom_def)

lemma alloc_inv_init [simp]: "alloc_inv st_init_strtable (\<lambda>_. None)"
  by (simp add: alloc_inv_def held_def st_init_strtable_def)

lemma alloc_view_init [simp]: "alloc_view tbl (\<lambda>_. None) = (\<lambda>_. None)"
  by (simp add: alloc_view_def fun_eq_iff)

lemma alloc_run_from:
  "alloc_inv tbl objects \<Longrightarrow> card (dom objects) + length es < 2 ^ 62 \<Longrightarrow>
   \<exists>tbl' objects'. alloc_run es tbl objects = Inr (tbl', objects') \<and> alloc_inv tbl' objects'
     \<and> alloc_view tbl' objects' = view_run es (alloc_view tbl objects)"
proof (induction es tbl objects rule: alloc_run.induct)
  case (2 gc t es tbl objects)
  from 2(3) have "card (dom objects) < 2 ^ 62" by simp
  from new_info_correct [OF 2(2) this, of gc t] obtain info tbl1 objects1 where
    n: "new_rbkit_allocation_info gc t tbl objects = Inr (info, tbl1, objects1)"
    and i: "alloc_inv tbl1 objects1"
    and v: "alloc_view tbl1 objects1 = (alloc_view tbl objects)(tp_object t \<mapsto> arg_data gc t)"
    by blast
  have "dom objects1 = insert (tp_object t) (dom objects)"
    using v dom_alloc_view [of tbl1 objects1] dom_alloc_view [of tbl objects] by simp
  then have "card (dom objects1) \<le> Suc (card (dom objects))"
    by (simp add: card_insert_if)
  with 2(3) have "card (dom objects1) + length es < 2 ^ 62" by simp
  with i have "\<exists>tbl' objects'. alloc_run es tbl1 objects1 = Inr (tbl', objects') \<and> alloc_inv tbl' objects'
     \<and> alloc_view tbl' objects' = view_run es (alloc_view tbl1 objects1)"
    by (rule 2(1))
  with n v show ?case by auto
next
  case (3 v es tbl objects)
  from delete_info_correct [OF 3(2), of v] obtain tbl1 objects1 where
    d: "delete_rbkit_allocation_info v tbl objects = Inr (tbl1, objects1)"
    and i: "alloc_inv tbl1 objects1"
    and w: "alloc_view tbl1 objects1 = (alloc_view tbl objects)(v := None)"
    by blast
  have "dom objects1 \<subseteq> dom objects"
    using w dom_alloc_view [of tbl1 objects1] dom_alloc_view [of tbl objects] by auto
  then have "card (dom objects1) \<le> card (dom objects)" by (simp add: card_mono)
  with 3(3) have "card (dom objects1) + length es < 2 ^ 62" by simp
  with i have "\<exists>tbl' objects'. alloc_run es tbl1 objects1 = Inr (tbl', objects') \<and> alloc_inv tbl' objects'
     \<and> alloc_view tbl' objects' = view_run es (alloc_view tbl1 objects1)"
    by (rule 3(1))
  with d w show ?case by auto
qed simp

section \<open>Properties\<close>

text \<open>
  Claim C9. Tracking any sequence of object allocations and frees from an empty table
  (fewer than \<open>2 ^ 62\<close> of them) never reads a freed string nor a missing count, and the
  table then holds, for each live object, exactly the path, line, class path, method
  and generation its last allocation reported: the shared, reference-counted strings are
  invisible. In particular a string still used by another object is never released.
\<close>

theorem allocation_tracking_refines_map:
  assumes "length es < 2 ^ 62"
  shows "\<exists>tbl objects. alloc_run es st_init_strtable (\<lambda>_. None) = Inr (tbl, objects)
    \<and> alloc_view tbl objects = view_run es (\<lambda>_. None)"
  using alloc_run_from [of st_init_strtable "\<lambda>_. None" es] assms by auto

definition example_arg :: "VALUE \<Rightarrow> string \<Rightarrow> trace_arg" where
  "example_arg v f = \<lparr>tp_object = v, tp_path = Some f, tp_lineno = 7, tp_method_id = 5,
     tp_defined_class = Some \<lparr>dc_frozen = False, dc_class_path = Some ''Foo''\<rparr>\<rparr>"

theorem allocation_tracking_refines_map_witness:
  "\<exists>tbl objects. alloc_run [Object_new 1 (example_arg 16 ''a.rb''), Object_new 1 (example_arg 24 ''a.rb''),
       Object_free 16] st_init_strtable (\<lambda>_. None) = Inr (tbl, objects)
     \<and> alloc_view tbl objects 24 = Some (Some ''a.rb'', 7, Some ''Foo'', 5, 1)
     \<and> alloc_view tbl objects 16 = None"
proof -
  let ?es = "[Object_new 1 (example_arg 16 ''a.rb''), Object_new 1 (example_arg 24 ''a.rb''), Object_free 16]"
  have "length ?es < 2 ^ 62" by simp
  from allocation_tracking_refines_map [OF this] obtain tbl objects where
    r: "alloc_run ?es st_init_strtable (\<lambda>_. None) = Inr (tbl, objects)"
    and v: "alloc_view tbl objects = view_run ?es (\<lambda>_. None)" by blast
  have "view_run ?es (\<lambda>_. None) 24 = Some (Some ''a.rb'', 7, Some ''Foo'', 5, 1)"
    by (simp add: example_arg_def arg_data_def tp_class_path_def c_str_def)
  moreover have "view_run ?es (\<lambda>_. None) 16 = None" by simp
  ultimately show ?thesis using r v by auto
qed

text \<open>
  Claim C10. The string table leaks nothing and shares everything. After any such sequence
  the allocated strings are exactly those some object's record refers to, no two of them
  have the same characters, and the count of an entry is the number of record fields
  that hold its pointer. Once every object is gone no string is allocated.
\<close>

theorem string_table_exact:
  assumes "length es < 2 ^ 62"
    and "alloc_run es st_init_strtable (\<lambda>_. None) = Inr (tbl, objects)"
  shows "{p. heap tbl p \<noteq> None} = set_mset (object_refs objects)
    \<and> (\<forall>p q s. heap tbl p = Some s \<and> heap tbl q = Some s \<longrightarrow> p = q)
    \<and> (\<forall>s p n. entries tbl s = Some (p, n) \<longrightarrow> unat n = count (object_refs objects) p)
    \<and> (dom objects = {} \<longrightarrow> (\<forall>p. heap tbl p = None))"
proof -
  have "alloc_inv st_init_strtable (\<lambda>_. None)" by (rule alloc_inv_init)
  from alloc_run_from [OF this, of es] assms
  have h: "held (object_refs objects) tbl" by (auto simp: alloc_inv_def)
  have live: "{p. heap tbl p \<noteq> None} = set_mset (object_refs objects)"
    using held_heap [OF h] held_live [OF h] by auto
  have key: "\<exists>n. entries tbl s = Some (r, n)" if "heap tbl r = Some s" for r s
    using held_heap [OF h that] held_ptr [OF h, of r] held_entry [OF h] that by fastforce
  have "p = q" if "heap tbl p = Some s" "heap tbl q = Some s" for p q s
    using key [OF that(1)] key [OF that(2)] by auto
  moreover have "unat n = count (object_refs objects) p" if "entries tbl s = Some (p, n)" for s p n
    using held_entry [OF h that] by simp
  moreover have "heap tbl p = None" if "dom objects = {}" for p
    using that live by auto
  ultimately show ?thesis using live by blast
qed

theorem string_table_exact_witness:
  "\<exists>tbl objects. alloc_run [Object_new 1 (example_arg 16 ''a.rb''), Object_free 16]
       st_init_strtable (\<lambda>_. None) = Inr (tbl, objects) \<and> (\<forall>p. heap tbl p = None)"
proof -
  let ?es = "[Object_new 1 (example_arg 16 ''a.rb''), Object_free 16]"
  have es: "length ?es < 2 ^ 62" by simp
  have "alloc_inv st_init_strtable (\<lambda>_. None)" by (rule alloc_inv_init)
  from alloc_run_from [OF this, of ?es] obtain tbl objects where
    r: "alloc_run ?es st_init_strtable (\<lambda>_. None) = Inr (tbl, objects)"
    and v: "alloc_view tbl objects = view_run ?es (alloc_view st_init_strtable (\<lambda>_. None))"
    by auto
  have "dom objects = {}"
    using v by (simp add: dom_alloc_view [symmetric, of objects tbl] example_arg_def)
  with string_table_exact [OF es r] r show ?thesis by blast
qed

end
