(* ===== verification/Object_Graph.thy ===== *)
theory Object_Graph
  imports Allocation_Info "HOL-Library.While_Combinator"
begin

text \<open>
  \<open>ext/rbkit_object_graph.c\<close> and \<open>.h\<close>: the snapshot of the Ruby heap. A dump is a linked
  list of pages of \<open>RBKIT_OBJECT_DUMP_PAGE_SIZE\<close> object records each, here the list of
  its pages from \<open>first\<close> to \<open>last\<close>. A counter that \<open>malloc\<close> left uninitialised is \<open>None\<close>.

  What the VM answers about its heap (the class, type, id, size and references of an
  object) is the argument \<open>vm\<close>; the order in which the VM hands its heap pages to the
  callback is the argument of \<open>get_object_dump\<close>.
\<close>

section \<open>The VM's answers\<close>

datatype ruby_type = T_NONE | T_ZOMBIE | T_ICLASS | T_IMEMO | T_OTHER nat

text \<open>
  \<open>has_T_IMEMO\<close> says whether the headers define \<open>T_IMEMO\<close> (Ruby 2.3 and above).
  \<open>obj_id\<close> is \<open>FIX2ULONG(rb_obj_id(obj))\<close>, \<open>reachable_from\<close> the objects that
  \<open>rb_objspace_reachable_objects_from\<close> passes to its callback, in order.
\<close>

record ruby_vm =
  has_T_IMEMO :: bool
  Qnil :: VALUE
  basic_class :: "VALUE \<Rightarrow> VALUE"
  builtin_type :: "VALUE \<Rightarrow> ruby_type"
  obj_id :: "VALUE \<Rightarrow> ulong"
  class2name :: "VALUE \<Rightarrow> string"
  reachable_from :: "VALUE \<Rightarrow> VALUE list"
  memsize_of :: "VALUE \<Rightarrow> size_t"

definition RBKIT_OBJECT_DUMP_PAGE_SIZE :: nat where
  "RBKIT_OBJECT_DUMP_PAGE_SIZE = 1000"

section \<open>Records\<close>

record rbkit_object_data =
  od_object_id :: ulong
  od_class_name :: "string option"
  od_references :: "ulong list option"
  od_reference_count :: size_t
  od_file :: "ptr option"
  od_line :: ulong
  od_size :: size_t

text \<open>The slots of a page that are in use; \<open>pg_count\<close> is the C field.\<close>

record rbkit_object_dump_page =
  pg_data :: "rbkit_object_data list"
  pg_count :: size_t

record rbkit_object_dump =
  dump_page_count :: "size_t option"
  dump_object_count :: "size_t option"
  dump_pages :: "rbkit_object_dump_page list"

definition rbkit_object_dump_page_new :: rbkit_object_dump_page where
  "rbkit_object_dump_page_new = \<lparr>pg_data = [], pg_count = 0\<rparr>"

text \<open>C's \<open>++\<close> on a counter that must have been set.\<close>

definition incr :: "size_t option \<Rightarrow> c_error + size_t option" where
  "incr c = (case c of None \<Rightarrow> Inl Uninitialised_read | Some n \<Rightarrow> Inr (Some (n + 1)))"

text \<open>A slot after \<open>initialize_object_data\<close>; the caller sets \<open>object_id\<close> at once.\<close>

definition blank_data :: rbkit_object_data where
  "blank_data = \<lparr>od_object_id = 0, od_class_name = None, od_references = None,
     od_reference_count = 0, od_file = None, od_line = 0, od_size = 0\<rparr>"

text \<open>
  The dump with a page that has room at its end, and the blank slot. The slot is at
  index \<open>last->count\<close>, which must be inside the page.
\<close>

definition initialize_object_data ::
  "rbkit_object_dump \<Rightarrow> c_error + rbkit_object_dump \<times> rbkit_object_data" where
  "initialize_object_data dump =
     and_then
       (if dump_pages dump = []
        then Inr (dump\<lparr>dump_pages := [rbkit_object_dump_page_new],
                       dump_page_count := Some 1, dump_object_count := Some 0\<rparr>)
        else if pg_count (last (dump_pages dump)) = of_nat RBKIT_OBJECT_DUMP_PAGE_SIZE
        then and_then (incr (dump_page_count dump)) (\<lambda>c.
               Inr (dump\<lparr>dump_pages := dump_pages dump @ [rbkit_object_dump_page_new],
                         dump_page_count := c\<rparr>))
        else Inr dump)
       (\<lambda>dump.
          if unat (pg_count (last (dump_pages dump))) < RBKIT_OBJECT_DUMP_PAGE_SIZE
          then Inr (dump, blank_data) else Inl Out_of_bounds)"

definition set_size :: "ruby_vm \<Rightarrow> VALUE \<Rightarrow> rbkit_object_data \<Rightarrow> rbkit_object_data" where
  "set_size vm obj data = (let size = memsize_of vm obj in if size > 0 then data\<lparr>od_size := size\<rparr> else data)"

text \<open>
  The callback for each reference. An object that is its own class is skipped. The
  first reference allocates the array, each later one grows it by one cell.
\<close>

definition reachable_object_i :: "ruby_vm \<Rightarrow> VALUE \<Rightarrow> rbkit_object_data \<Rightarrow> rbkit_object_data" where
  "reachable_object_i vm ref data =
     (if basic_class vm ref = ref then data
      else
        let n = od_reference_count data + 1;
            cells = (if n = 1 then []
                     else case od_references data of None \<Rightarrow> [] | Some rs \<Rightarrow> rs)
        in data\<lparr>od_reference_count := n,
                od_references := Some (take (unat (n - 1)) cells @ [obj_id vm ref])\<rparr>)"

definition dump_heap_object ::
  "ruby_vm \<Rightarrow> object_table \<Rightarrow> VALUE \<Rightarrow> rbkit_object_dump \<Rightarrow> c_error + rbkit_object_dump" where
  "dump_heap_object vm objects obj dump =
     and_then (initialize_object_data dump) (\<lambda>(dump, data).
     let data = data\<lparr>od_object_id := obj_id vm obj\<rparr>;
         klass = basic_class vm obj;
         data = data\<lparr>od_class_name := Some (class2name vm klass)\<rparr>;
         data = fold (reachable_object_i vm) (reachable_from vm obj) data;
         data = (case objects obj of
                   None \<Rightarrow> data
                 | Some info \<Rightarrow> data\<lparr>od_file := ai_path info, od_line := ai_line info\<rparr>);
         data = set_size vm obj data
     in and_then (incr (dump_object_count dump)) (\<lambda>c.
        let page = last (dump_pages dump);
            i = unat (pg_count page);
            page = page\<lparr>pg_data := take i (pg_data page) @ [data], pg_count := pg_count page + 1\<rparr>
        in Inr (dump\<lparr>dump_object_count := c, dump_pages := butlast (dump_pages dump) @ [page]\<rparr>)))"

text \<open>Which slots of the heap are dumped.\<close>

definition dumpable :: "ruby_vm \<Rightarrow> VALUE \<Rightarrow> bool" where
  "dumpable vm obj \<longleftrightarrow>
     basic_class vm obj \<noteq> Qnil vm \<and> builtin_type vm obj \<noteq> T_NONE
   \<and> builtin_type vm obj \<noteq> T_ZOMBIE \<and> builtin_type vm obj \<noteq> T_ICLASS
   \<and> (has_T_IMEMO vm \<longrightarrow> builtin_type vm obj \<noteq> T_IMEMO)"

definition visit_slot ::
  "ruby_vm \<Rightarrow> object_table \<Rightarrow> VALUE \<Rightarrow> rbkit_object_dump \<Rightarrow> c_error + rbkit_object_dump" where
  "visit_slot vm objects obj dump =
     (if dumpable vm obj then dump_heap_object vm objects obj dump else Inr dump)"

text \<open>
  The walk over one heap page: \<open>obj != vend; obj += stride\<close>, with the addition of machine
  words. It does not return when the slots step over \<open>vend\<close> for ever.
\<close>

definition heap_obj_i :: "ruby_vm \<Rightarrow> object_table \<Rightarrow> VALUE \<Rightarrow> VALUE \<Rightarrow> size_t
    \<Rightarrow> rbkit_object_dump \<Rightarrow> c_error + rbkit_object_dump" where
  "heap_obj_i vm objects vstart vend stride dump =
     (case while_option (\<lambda>(obj, r). obj \<noteq> vend \<and> returns r)
             (\<lambda>(obj, r). (obj + stride, and_then r (visit_slot vm objects obj)))
             (vstart, Inr dump) of
        None \<Rightarrow> Inl No_return
      | Some (obj, r) \<Rightarrow> r)"

type_synonym heap_page = "VALUE \<times> VALUE \<times> size_t"

fun collect_heap_objects ::
  "ruby_vm \<Rightarrow> object_table \<Rightarrow> heap_page list \<Rightarrow> rbkit_object_dump \<Rightarrow> c_error + rbkit_object_dump"
where
  "collect_heap_objects vm objects [] dump = Inr dump"
| "collect_heap_objects vm objects ((vstart, vend, stride) # ps) dump =
     and_then (heap_obj_i vm objects vstart vend stride dump)
       (collect_heap_objects vm objects ps)"

definition get_object_dump ::
  "ruby_vm \<Rightarrow> heap_page list \<Rightarrow> object_table \<Rightarrow> c_error + rbkit_object_dump" where
  "get_object_dump vm heap_pages objects =
     collect_heap_objects vm objects heap_pages
       \<lparr>dump_page_count = None, dump_object_count = None, dump_pages = []\<rparr>"

section \<open>What a record says of its object\<close>

definition reference_ids :: "ruby_vm \<Rightarrow> VALUE \<Rightarrow> ulong list" where
  "reference_ids vm obj =
     map (obj_id vm) (filter (\<lambda>r. basic_class vm r \<noteq> r) (reachable_from vm obj))"

definition object_data_of :: "ruby_vm \<Rightarrow> object_table \<Rightarrow> VALUE \<Rightarrow> rbkit_object_data" where
  "object_data_of vm objects obj =
     \<lparr>od_object_id = obj_id vm obj,
      od_class_name = Some (class2name vm (basic_class vm obj)),
      od_references = (if reference_ids vm obj = [] then None else Some (reference_ids vm obj)),
      od_reference_count = of_nat (length (reference_ids vm obj)),
      od_file = (case objects obj of None \<Rightarrow> None | Some i \<Rightarrow> ai_path i),
      od_line = (case objects obj of None \<Rightarrow> 0 | Some i \<Rightarrow> ai_line i),
      od_size = memsize_of vm obj\<rparr>"

text \<open>The reference array after some callbacks: the ids of the references seen so far.\<close>

definition refs_collected :: "ulong list \<Rightarrow> rbkit_object_data \<Rightarrow> rbkit_object_data" where
  "refs_collected ids data = data\<lparr>od_reference_count := of_nat (length ids),
     od_references := (if ids = [] then None else Some ids)\<rparr>"

lemma reachable_object_i_step:
  assumes "length ids < 2 ^ 63"
  shows "reachable_object_i vm ref (refs_collected ids data) =
    refs_collected (ids @ (if basic_class vm ref = ref then [] else [obj_id vm ref])) data"
proof -
  have "unat (of_nat (length ids) :: size_t) = length ids"
    using assms by (simp add: unat_of_nat)
  moreover have "(of_nat (length ids) + 1 :: size_t) = 1 \<longleftrightarrow> ids = []"
    using calculation by (auto simp: unat_eq_0)
  ultimately show ?thesis
    by (auto simp: reachable_object_i_def refs_collected_def Let_def add.commute)
qed

lemma fold_reachable:
  "length ids + length refs < 2 ^ 63 \<Longrightarrow>
   fold (reachable_object_i vm) refs (refs_collected ids data) =
     refs_collected (ids @ map (obj_id vm) (filter (\<lambda>r. basic_class vm r \<noteq> r) refs)) data"
proof (induction refs arbitrary: ids)
  case (Cons r refs)
  then show ?case using reachable_object_i_step [of ids vm r data] by simp
qed simp

text \<open>The record built for an object is the one \<open>object_data_of\<close> describes.\<close>

lemma built_data:
  assumes "length (reachable_from vm obj) < 2 ^ 63"
  shows "set_size vm obj (case objects obj of
           None \<Rightarrow> fold (reachable_object_i vm) (reachable_from vm obj)
             (blank_data\<lparr>od_object_id := obj_id vm obj,
               od_class_name := Some (class2name vm (basic_class vm obj))\<rparr>)
         | Some info \<Rightarrow> (fold (reachable_object_i vm) (reachable_from vm obj)
             (blank_data\<lparr>od_object_id := obj_id vm obj,
               od_class_name := Some (class2name vm (basic_class vm obj))\<rparr>))
             \<lparr>od_file := ai_path info, od_line := ai_line info\<rparr>)
       = object_data_of vm objects obj"
proof -
  let ?b = "blank_data\<lparr>od_object_id := obj_id vm obj,
               od_class_name := Some (class2name vm (basic_class vm obj))\<rparr>"
  have "refs_collected [] ?b = ?b"
    by (simp add: refs_collected_def blank_data_def)
  with fold_reachable [of "[]" "reachable_from vm obj" vm ?b] assms
  have "fold (reachable_object_i vm) (reachable_from vm obj) ?b
          = refs_collected (reference_ids vm obj) ?b"
    by (simp add: reference_ids_def)
  then show ?thesis
    by (cases "objects obj")
      (auto simp: set_size_def Let_def refs_collected_def blank_data_def object_data_of_def
        word_gt_0)
qed

section \<open>The pages\<close>

definition dump_list :: "rbkit_object_dump \<Rightarrow> rbkit_object_data list" where
  "dump_list d = concat (map pg_data (dump_pages d))"

text \<open>Every page but the last is full, no page is empty, and counts are right.\<close>

definition page_wf :: "rbkit_object_dump_page \<Rightarrow> bool" where
  "page_wf p \<longleftrightarrow> pg_count p = of_nat (length (pg_data p)) \<and> pg_data p \<noteq> []
     \<and> length (pg_data p) \<le> RBKIT_OBJECT_DUMP_PAGE_SIZE"

definition page_full :: "rbkit_object_dump_page \<Rightarrow> bool" where
  "page_full p \<longleftrightarrow> length (pg_data p) = RBKIT_OBJECT_DUMP_PAGE_SIZE"

definition pages_ok :: "rbkit_object_dump_page list \<Rightarrow> bool" where
  "pages_ok ps \<longleftrightarrow> list_all page_wf ps \<and> list_all page_full (butlast ps)"

definition dump_inv :: "rbkit_object_dump \<Rightarrow> bool" where
  "dump_inv d \<longleftrightarrow>
     pages_ok (dump_pages d)
   \<and> dump_page_count d =
       (if dump_pages d = [] then None else Some (of_nat (length (dump_pages d))))
   \<and> dump_object_count d =
       (if dump_pages d = [] then None else Some (of_nat (length (dump_list d))))"

lemma pages_ok_snoc [simp]:
  "pages_ok (ps @ [p]) \<longleftrightarrow> list_all page_wf ps \<and> list_all page_full ps \<and> page_wf p"
  by (auto simp: pages_ok_def)

lemma page_wf_unat: "page_wf p \<Longrightarrow> unat (pg_count p) = length (pg_data p)"
  by (simp add: page_wf_def RBKIT_OBJECT_DUMP_PAGE_SIZE_def unat_of_nat)

lemma page_wf_full:
  "page_wf p \<Longrightarrow> pg_count p = of_nat RBKIT_OBJECT_DUMP_PAGE_SIZE \<longleftrightarrow> page_full p"
  using page_wf_unat [of p]
  by (auto simp: page_full_def RBKIT_OBJECT_DUMP_PAGE_SIZE_def page_wf_def)

text \<open>A page with one more record.\<close>

definition page_add :: "rbkit_object_dump_page \<Rightarrow> rbkit_object_data \<Rightarrow> rbkit_object_dump_page" where
  "page_add p x = p\<lparr>pg_data := pg_data p @ [x], pg_count := pg_count p + 1\<rparr>"

lemma page_add_wf:
  "page_wf p \<Longrightarrow> \<not> page_full p \<Longrightarrow> page_wf (page_add p x)"
  by (auto simp: page_wf_def page_full_def page_add_def add.commute)

text \<open>The dump of one more object.\<close>

lemma dump_heap_object_correct:
  assumes inv: "dump_inv d" and refs: "length (reachable_from vm obj) < 2 ^ 63"
  shows "\<exists>d'. dump_heap_object vm objects obj d = Inr d' \<and> dump_inv d'
    \<and> dump_list d' = dump_list d @ [object_data_of vm objects obj]"
proof -
  let ?x = "object_data_of vm objects obj"
  let ?new = "\<lparr>pg_data = [?x], pg_count = 1\<rparr>"
  note unfold = dump_heap_object_def initialize_object_data_def Let_def built_data [OF refs]
    rbkit_object_dump_page_new_def incr_def
  have new: "page_wf ?new"
    by (simp add: page_wf_def RBKIT_OBJECT_DUMP_PAGE_SIZE_def)
  show ?thesis
  proof (cases "dump_pages d" rule: rev_cases)
    case Nil
    then have "dump_heap_object vm objects obj d
        = Inr (d\<lparr>dump_page_count := Some 1, dump_object_count := Some 1, dump_pages := [?new]\<rparr>)"
      by (simp add: unfold RBKIT_OBJECT_DUMP_PAGE_SIZE_def)
    with Nil new show ?thesis
      using pages_ok_snoc [of "[]" ?new] by (simp add: dump_inv_def dump_list_def)
  next
    case (snoc ps p)
    with inv have wf: "page_wf p" "list_all page_wf ps" "list_all page_full ps"
      and c: "dump_page_count d = Some (of_nat (length (dump_pages d)))"
        "dump_object_count d = Some (of_nat (length (dump_list d)))"
      by (auto simp: dump_inv_def)
    show ?thesis
    proof (cases "page_full p")
      case True
      let ?d = "d\<lparr>dump_page_count := Some (of_nat (length (dump_pages d)) + 1),
          dump_object_count := Some (of_nat (length (dump_list d)) + 1),
          dump_pages := dump_pages d @ [?new]\<rparr>"
      have "dump_heap_object vm objects obj d = Inr ?d"
        using snoc c page_wf_full [OF wf(1)] True
        by (simp add: unfold RBKIT_OBJECT_DUMP_PAGE_SIZE_def butlast_append)
      moreover have "pages_ok ((ps @ [p]) @ [?new])"
        unfolding pages_ok_snoc using wf True new by simp
      ultimately show ?thesis using snoc
        by (simp add: dump_inv_def dump_list_def add.commute)
    next
      case False
      let ?d = "d\<lparr>dump_object_count := Some (of_nat (length (dump_list d)) + 1),
          dump_pages := ps @ [page_add p ?x]\<rparr>"
      have "length (pg_data p) < RBKIT_OBJECT_DUMP_PAGE_SIZE"
        using wf(1) False by (auto simp: page_wf_def page_full_def)
      then have "dump_heap_object vm objects obj d = Inr ?d"
        using snoc c page_wf_full [OF wf(1)] page_wf_unat [OF wf(1)] False
        by (simp add: unfold page_add_def)
      with snoc wf page_add_wf [OF wf(1) False] c show ?thesis
        by (simp add: dump_inv_def dump_list_def page_add_def add.commute)
    qed
  qed
qed

section \<open>The walk over the heap\<close>

text \<open>The slots of a heap page: \<open>n\<close> addresses \<open>stride\<close> apart.\<close>

definition page_slots :: "VALUE \<Rightarrow> size_t \<Rightarrow> nat \<Rightarrow> VALUE list" where
  "page_slots vstart stride n = map (\<lambda>i. vstart + of_nat i * stride) [0..<n]"

text \<open>
  A heap page as the VM hands it over: \<open>vend\<close> is \<open>n\<close> strides after \<open>vstart\<close>, and the
  page does not wrap around the address space.
\<close>

definition page_spans :: "nat \<Rightarrow> heap_page \<Rightarrow> bool" where
  "page_spans n hp \<longleftrightarrow> (case hp of (vstart, vend, stride) \<Rightarrow>
     vend = vstart + of_nat n * stride \<and> stride \<noteq> 0 \<and> n * unat stride < 2 ^ 64)"

fun visit_all :: "ruby_vm \<Rightarrow> object_table \<Rightarrow> VALUE list \<Rightarrow> rbkit_object_dump
    \<Rightarrow> c_error + rbkit_object_dump" where
  "visit_all vm objects [] dump = Inr dump"
| "visit_all vm objects (v # vs) dump =
     and_then (visit_slot vm objects v dump) (visit_all vm objects vs)"

lemma visit_all_append:
  "visit_all vm objects (us @ vs) dump =
     and_then (visit_all vm objects us dump) (visit_all vm objects vs)"
  by (induction us arbitrary: dump) (auto simp: and_then_def split: sum.splits)

lemma page_slots_Suc:
  "page_slots vstart stride (Suc n) = vstart # page_slots (vstart + stride) stride n"
proof -
  have "[0..<Suc n] = 0 # map Suc [0..<n]" by (simp add: map_Suc_upt upt_conv_Cons del: upt_Suc)
  then show ?thesis by (simp add: page_slots_def comp_def algebra_simps del: upt_Suc)
qed

lemma page_spans_step:
  assumes "page_spans (Suc n) (vstart, vend, stride)"
  shows "vstart \<noteq> vend" and "page_spans n (vstart + stride, vend, stride)"
proof -
  have "unat (of_nat (Suc n) * stride) = Suc n * unat stride"
  proof -
    have "of_nat (Suc n) * stride = of_nat (Suc n * unat stride)"
      by (simp add: distrib_right)
    moreover have "unat (of_nat (Suc n * unat stride) :: size_t) = Suc n * unat stride"
      using assms by (intro unat_of_nat_small) (simp add: page_spans_def)
    ultimately show ?thesis by (simp only:)
  qed
  moreover have "unat stride \<noteq> 0" using assms by (simp add: page_spans_def unat_eq_0)
  ultimately have "of_nat (Suc n) * stride \<noteq> 0" by (metis mult_eq_0_iff nat.distinct(1) unat_0)
  then show "vstart \<noteq> vend" using assms by (simp add: page_spans_def)
  show "page_spans n (vstart + stride, vend, stride)"
    using assms by (auto simp: page_spans_def algebra_simps)
qed

text \<open>The loop of \<open>heap_obj_i\<close> ends, having visited each slot of the page once, in order.\<close>

lemma heap_obj_i_visits:
  "page_spans n (vstart, vend, stride) \<Longrightarrow>
     heap_obj_i vm objects vstart vend stride dump = visit_all vm objects (page_slots vstart stride n) dump"
proof (induction n arbitrary: vstart dump)
  case 0
  then show ?case
    by (simp add: heap_obj_i_def while_option_unfold page_spans_def page_slots_def)
next
  case (Suc n)
  note step = page_spans_step [OF Suc.prems]
  show ?case
  proof (cases "visit_slot vm objects vstart dump")
    case (Inl e)
    then show ?thesis
      using step(1) by (simp add: heap_obj_i_def while_option_unfold page_slots_Suc)
  next
    case (Inr d)
    have "heap_obj_i vm objects vstart vend stride dump
        = heap_obj_i vm objects (vstart + stride) vend stride d"
      unfolding heap_obj_i_def
      by (subst while_option_unfold) (simp add: step(1) Inr)
    with Suc.IH [OF step(2)] Inr show ?thesis by (simp add: page_slots_Suc)
  qed
qed

section \<open>The whole snapshot\<close>

text \<open>The heap the VM walks: its pages, each with the number of its slots.\<close>

type_synonym ruby_heap = "(nat \<times> heap_page) list"

definition heap_ok :: "ruby_vm \<Rightarrow> ruby_heap \<Rightarrow> bool" where
  "heap_ok vm h \<longleftrightarrow> list_all (\<lambda>(n, hp). page_spans n hp) h
     \<and> (\<forall>v. length (reachable_from vm v) < 2 ^ 63)"

fun heap_slots :: "ruby_heap \<Rightarrow> VALUE list" where
  "heap_slots [] = []"
| "heap_slots ((n, vstart, vend, stride) # h) = page_slots vstart stride n @ heap_slots h"

definition live_objects :: "ruby_vm \<Rightarrow> ruby_heap \<Rightarrow> VALUE list" where
  "live_objects vm h = filter (dumpable vm) (heap_slots h)"

lemma visit_all_correct:
  assumes "\<And>v. length (reachable_from vm v) < 2 ^ 63"
  shows "dump_inv d \<Longrightarrow> \<exists>d'. visit_all vm objects vs d = Inr d' \<and> dump_inv d'
    \<and> dump_list d' = dump_list d @ map (object_data_of vm objects) (filter (dumpable vm) vs)"
proof (induction vs arbitrary: d)
  case (Cons v vs)
  show ?case
  proof (cases "dumpable vm v")
    case True
    from dump_heap_object_correct [OF Cons.prems assms [of v], of objects] obtain d1 where
      "dump_heap_object vm objects v d = Inr d1" "dump_inv d1"
      "dump_list d1 = dump_list d @ [object_data_of vm objects v]" by blast
    with Cons.IH [of d1] True show ?thesis by (auto simp: visit_slot_def)
  next
    case False
    with Cons.IH [OF Cons.prems] show ?thesis by (simp add: visit_slot_def)
  qed
qed simp

lemma collect_heap_objects_visits:
  "list_all (\<lambda>(n, hp). page_spans n hp) h \<Longrightarrow>
     collect_heap_objects vm objects (map snd h) d = visit_all vm objects (heap_slots h) d"
proof (induction h arbitrary: d rule: heap_slots.induct)
  case (2 n vstart vend stride h)
  then have "collect_heap_objects vm objects (map snd h) = visit_all vm objects (heap_slots h)"
    by (intro ext) auto
  moreover from 2(2) have "page_spans n (vstart, vend, stride)" by simp
  ultimately show ?case by (simp add: heap_obj_i_visits visit_all_append)
qed simp

text \<open>The pages are the records in pieces of a page each.\<close>

lemma pages_ok_chunks:
  "pages_ok ps \<Longrightarrow> map pg_data ps = chunks RBKIT_OBJECT_DUMP_PAGE_SIZE (concat (map pg_data ps))"
proof (induction ps)
  case (Cons p ps)
  let ?n = RBKIT_OBJECT_DUMP_PAGE_SIZE
  have n: "0 < ?n" by (simp add: RBKIT_OBJECT_DUMP_PAGE_SIZE_def)
  from Cons.prems have p: "pg_data p \<noteq> []" "length (pg_data p) \<le> ?n"
    by (simp_all add: pages_ok_def page_wf_def)
  show ?case
  proof (cases ps)
    case Nil
    with p n show ?thesis by (simp add: chunks_step)
  next
    case (Cons q qs)
    with Cons.prems have "length (pg_data p) = ?n" "pages_ok ps"
      by (auto simp: pages_ok_def page_full_def)
    with Cons.IH p n show ?thesis by (simp add: chunks_step)
  qed
qed simp

lemma get_object_dump_correct:
  assumes "heap_ok vm h"
  shows "\<exists>d. get_object_dump vm (map snd h) objects = Inr d \<and> dump_inv d
    \<and> dump_list d = map (object_data_of vm objects) (live_objects vm h)"
proof -
  let ?d = "\<lparr>dump_page_count = None, dump_object_count = None, dump_pages = []\<rparr>"
  have "dump_inv ?d" by (simp add: dump_inv_def pages_ok_def)
  from visit_all_correct [OF _ this, of vm objects "heap_slots h"] assms
  show ?thesis
    by (simp add: get_object_dump_def collect_heap_objects_visits heap_ok_def live_objects_def
      dump_list_def)
qed

section \<open>Properties\<close>

text \<open>
  Claim C8. The heap walk ends and the snapshot is complete and exact: it holds one
  record for each slot of the heap that is a live, visible object and none for the
  others, in heap order; each record has the object's id, class name, references (those
  that are not their own class), size, and the path and line its allocation was traced
  to; the records sit in pages of 1000, all full but the last.
\<close>

theorem object_dump_complete:
  assumes "heap_ok vm h"
  shows "\<exists>d. get_object_dump vm (map snd h) objects = Inr d
    \<and> dump_list d = map (object_data_of vm objects) (live_objects vm h)
    \<and> map pg_data (dump_pages d) = chunks 1000 (dump_list d)"
proof -
  from get_object_dump_correct [OF assms, of objects] obtain d where
    d: "get_object_dump vm (map snd h) objects = Inr d" "dump_inv d"
       "dump_list d = map (object_data_of vm objects) (live_objects vm h)" by blast
  then have "map pg_data (dump_pages d) = chunks 1000 (dump_list d)"
    using pages_ok_chunks [of "dump_pages d"]
    by (simp add: dump_inv_def dump_list_def RBKIT_OBJECT_DUMP_PAGE_SIZE_def)
  with d show ?thesis by blast
qed

definition example_vm :: ruby_vm where
  "example_vm = \<lparr>has_T_IMEMO = True, Qnil = 8, basic_class = (\<lambda>v. if v = 80 then 8 else 200),
     builtin_type = (\<lambda>v. if v = 120 then T_IMEMO else T_OTHER 1), obj_id = (\<lambda>v. v div 2),
     class2name = (\<lambda>_. ''Foo''), reachable_from = (\<lambda>v. if v = 40 then [200, 160] else []),
     memsize_of = (\<lambda>_. 40)\<rparr>"

definition example_heap :: ruby_heap where
  "example_heap = [(4, 40, 200, 40)]"

lemma example_heap_ok: "heap_ok example_vm example_heap"
  by (simp add: heap_ok_def example_heap_def page_spans_def example_vm_def)

theorem object_dump_complete_witness:
  "live_objects example_vm example_heap = [40, 160]
   \<and> (\<exists>d. get_object_dump example_vm (map snd example_heap) (\<lambda>_. None) = Inr d
        \<and> map od_references (dump_list d) = [Some [80], None])"
proof -
  have "[0..<4] = [0, 1, 2, 3 :: nat]" by code_simp
  then have l: "live_objects example_vm example_heap = [40, 160]"
    by (simp add: live_objects_def example_heap_def page_slots_def dumpable_def example_vm_def)
  from object_dump_complete [OF example_heap_ok, of "\<lambda>_. None"] l
  show ?thesis
    by (auto simp: object_data_of_def reference_ids_def) (simp_all add: example_vm_def)
qed

end
