(* ===== verification/Time_Helper.thy ===== *)
theory Time_Helper
  imports Rbkit_Prelude "HOL-Library.Signed_Division"
begin

text \<open>
  \<open>ext/rbkit_time_helper.c\<close>: the clock readings. \<open>gettimeofday\<close> is the environment's;
  its result is the argument \<open>tv\<close>. C's conversion of the integer result to a
  \<open>double\<close> is the argument \<open>i2d\<close>.
\<close>

record timeval =
  tv_sec :: int
  tv_usec :: int

text \<open>A reading as \<open>gettimeofday\<close> documents it.\<close>

definition normalised :: "timeval \<Rightarrow> bool" where
  "normalised tv \<longleftrightarrow> 0 \<le> tv_sec tv \<and> 0 \<le> tv_usec tv \<and> tv_usec tv < 1000000"

definition wall_usec :: "timeval \<Rightarrow> int" where
  "wall_usec tv = tv_sec tv * 1000000 + tv_usec tv"

definition wall_msec :: "timeval \<Rightarrow> int" where
  "wall_msec tv = tv_sec tv * 1000 + tv_usec tv sdiv 1000"

definition get_wall_time_in_usec :: "(int \<Rightarrow> double) \<Rightarrow> timeval \<Rightarrow> double" where
  "get_wall_time_in_usec i2d tv = i2d (wall_usec tv)"

definition get_wall_time_in_msec :: "(int \<Rightarrow> double) \<Rightarrow> timeval \<Rightarrow> double" where
  "get_wall_time_in_msec i2d tv = i2d (wall_msec tv)"

text \<open>
  The arithmetic of C's \<open>double\<close> that the processor time needs. \<open>clock_gettime\<close> gives seconds
  and nanoseconds, \<open>clock\<close> on a Mac gives ticks.
\<close>

record float_ops =
  fl_of_int :: "int \<Rightarrow> double"
  fl_add :: "double \<Rightarrow> double \<Rightarrow> double"
  fl_sub :: "double \<Rightarrow> double \<Rightarrow> double"
  fl_mul :: "double \<Rightarrow> double \<Rightarrow> double"
  fl_div :: "double \<Rightarrow> double \<Rightarrow> double"

record timespec =
  ts_sec :: int
  ts_nsec :: int

definition get_cpu_time_in_usec :: "float_ops \<Rightarrow> timespec \<Rightarrow> double" where
  "get_cpu_time_in_usec fl ts =
     fl_add fl (fl_of_int fl (ts_sec ts * 1000000)) (fl_div fl (fl_of_int fl (ts_nsec ts)) (fl_of_int fl 1000))"

definition get_cpu_time_in_usec_apple :: "float_ops \<Rightarrow> int \<Rightarrow> int \<Rightarrow> double" where
  "get_cpu_time_in_usec_apple fl clocks_per_sec ticks =
     fl_div fl (fl_mul fl (fl_of_int fl ticks) (fl_of_int fl 1000000)) (fl_of_int fl clocks_per_sec)"

text \<open>The millisecond reading is the microsecond reading rounded down.\<close>

lemma wall_msec_floor: "normalised tv \<Longrightarrow> wall_msec tv = wall_usec tv div 1000"
proof -
  assume n: "normalised tv"
  have "tv_usec tv sdiv 1000 = tv_usec tv div 1000"
    using n by (cases "tv_usec tv = 0") (auto simp: normalised_def signed_divide_int_def)
  then have "wall_msec tv = tv_sec tv * 1000 + tv_usec tv div 1000"
    by (simp add: wall_msec_def)
  also have "\<dots> = wall_usec tv div 1000"
    using div_mult_self3 [of 1000 "tv_sec tv * 1000" "tv_usec tv"] by (simp add: wall_usec_def)
  finally show ?thesis .
qed

lemma wall_msec_mono:
  assumes "normalised a" "normalised b" "wall_usec a \<le> wall_usec b"
  shows "wall_msec a \<le> wall_msec b"
  using assms by (simp add: wall_msec_floor zdiv_mono1)

text \<open>Up to the second \<open>2 ^ 43\<close> no C \<open>long\<close> overflows and the \<open>double\<close> is exact.\<close>

lemma wall_msec_bounds:
  "normalised tv \<Longrightarrow> tv_sec tv < 2 ^ 43 \<Longrightarrow> 0 \<le> wall_msec tv \<and> wall_msec tv < 2 ^ 53"
  by (simp add: wall_msec_floor) (auto simp: wall_usec_def normalised_def)

end
