(* ===== verification/Sampling_Profiler.thy ===== *)
theory Sampling_Profiler
  imports Time_Helper
begin

text \<open>
  \<open>ext/rbkit_sampling_profiler.c\<close> and \<open>.h\<close>: the interval timer that interrupts the
  program, the signal handler that asks the VM to run a job, and the job that walks the
  stack. The kernel's part (the two interval timers, the disposition of the two signals)
  and the VM's list of postponed jobs are explicit state.
\<close>

section \<open>Signals and timers\<close>

datatype signal = No_signal | SIGALRM | SIGPROF

datatype itimer = ITIMER_REAL | ITIMER_PROF

datatype disposition = SIG_DFL | SIG_IGN | Handler

text \<open>What \<open>setitimer\<close> takes: the time to the first expiry and the one between expiries.\<close>

record itimerval =
  it_interval :: timeval
  it_value :: timeval

definition no_time :: timeval where
  "no_time = \<lparr>tv_sec = 0, tv_usec = 0\<rparr>"

definition timer_off :: itimerval where
  "timer_off = \<lparr>it_interval = no_time, it_value = no_time\<rparr>"

text \<open>
  \<open>timers w\<close> is what the kernel keeps of timer \<open>w\<close>: \<open>it_value\<close> is the time it was last
  loaded with. The statics of the file are \<open>signal_type\<close>, \<open>clock_type\<close> and whether the
  callback \<open>queue_cpu_sample_for_sending\<close> was set.
\<close>

record profiler =
  timers :: "itimer \<Rightarrow> itimerval"
  dispositions :: "signal \<Rightarrow> disposition"
  signal_type :: signal
  clock_type :: itimer
  queue_func_set :: bool

definition profiler_init :: profiler where
  "profiler_init = \<lparr>timers = (\<lambda>_. timer_off), dispositions = (\<lambda>_. SIG_DFL),
     signal_type = No_signal, clock_type = ITIMER_REAL, queue_func_set = False\<rparr>"

text \<open>The signal a timer sends when it expires.\<close>

fun timer_signal :: "itimer \<Rightarrow> signal" where
  "timer_signal ITIMER_REAL = SIGALRM"
| "timer_signal ITIMER_PROF = SIGPROF"

text \<open>\<open>sigaction\<close> fails on an invalid signal number; the sources ignore the result.\<close>

definition sigaction :: "signal \<Rightarrow> disposition \<Rightarrow> profiler \<Rightarrow> profiler" where
  "sigaction s d p =
     (if s = No_signal then p else p\<lparr>dispositions := (dispositions p)(s := d)\<rparr>)"

text \<open>
  The kernel's part. \<open>setitimer\<close> fails with EINVAL, changing nothing, unless both times are
  normalised; the sources ignore the result. A timer runs when its \<open>it_value\<close> is not zero;
  when it expires it is loaded with its \<open>it_interval\<close>, so one without an interval stops.
\<close>

definition setitimer :: "itimer \<Rightarrow> itimerval \<Rightarrow> profiler \<Rightarrow> profiler" where
  "setitimer w t p =
     (if normalised (it_interval t) \<and> normalised (it_value t)
      then p\<lparr>timers := (timers p)(w := t)\<rparr> else p)"

definition armed :: "profiler \<Rightarrow> itimer \<Rightarrow> bool" where
  "armed p w \<longleftrightarrow> it_value (timers p w) \<noteq> no_time"

definition expire :: "itimer \<Rightarrow> profiler \<Rightarrow> profiler" where
  "expire w p = p\<lparr>timers := (timers p)(w := (timers p w)\<lparr>it_value := it_interval (timers p w)\<rparr>)\<rparr>"

definition install_signal_handler :: "profiler \<Rightarrow> profiler" where
  "install_signal_handler p = sigaction (signal_type p) Handler p"

definition uninstall_signal_handler :: "profiler \<Rightarrow> profiler" where
  "uninstall_signal_handler p = sigaction (signal_type p) SIG_IGN p"

definition start_sigprof_timer :: "c_int \<Rightarrow> profiler \<Rightarrow> profiler" where
  "start_sigprof_timer interval p =
     (let every = \<lparr>tv_sec = 0, tv_usec = sint interval\<rparr>
      in setitimer (clock_type p) \<lparr>it_interval = every, it_value = every\<rparr> p)"

text \<open>The struct is all zeros.\<close>

definition stop_sigprof_timer :: "profiler \<Rightarrow> profiler" where
  "stop_sigprof_timer p =
     setitimer (clock_type p) \<lparr>it_interval = \<lparr>tv_sec = 0, tv_usec = 0\<rparr>, it_value = \<lparr>tv_sec = 0, tv_usec = 0\<rparr>\<rparr> p"

definition rbkit_install_sampling_profiler :: "bool \<Rightarrow> c_int \<Rightarrow> profiler \<Rightarrow> profiler" where
  "rbkit_install_sampling_profiler wall_time interval p =
     (let p = p\<lparr>queue_func_set := True\<rparr>;
          p = (if wall_time then p\<lparr>signal_type := SIGALRM, clock_type := ITIMER_REAL\<rparr>
               else p\<lparr>signal_type := SIGPROF, clock_type := ITIMER_PROF\<rparr>);
          p = install_signal_handler p
      in start_sigprof_timer interval p)"

definition rbkit_uninstall_sampling_profiler :: "profiler \<Rightarrow> profiler" where
  "rbkit_uninstall_sampling_profiler p = uninstall_signal_handler (stop_sigprof_timer p)"

section \<open>Postponed jobs\<close>

text \<open>
  The VM's list of jobs to run at the next safe point. It holds at most \<open>capacity\<close> jobs;
  a registration beyond that is refused. \<open>register_one\<close> refuses a second job of its kind.
\<close>

datatype job = Sampling_job | Publish_job

definition postponed_job_register :: "nat \<Rightarrow> job \<Rightarrow> job list \<Rightarrow> job list" where
  "postponed_job_register capacity j js = (if length js < capacity then js @ [j] else js)"

definition postponed_job_register_one :: "nat \<Rightarrow> job \<Rightarrow> job list \<Rightarrow> job list" where
  "postponed_job_register_one capacity j js =
     (if j \<in> set js then js else postponed_job_register capacity j js)"

definition signal_handler :: "nat \<Rightarrow> job list \<Rightarrow> job list" where
  "signal_handler capacity js = postponed_job_register_one capacity Sampling_job js"

text \<open>However many signals arrive before the job runs, it is pending once.\<close>

lemma signal_handler_once:
  "count_list js Sampling_job \<le> 1 \<Longrightarrow> count_list (signal_handler capacity js) Sampling_job \<le> 1"
  by (auto simp: signal_handler_def postponed_job_register_one_def postponed_job_register_def
      count_list_0_iff)

section \<open>The sampling job\<close>

record rbkit_frame_data =
  fr_method_name :: "string option"
  fr_label :: "string option"
  fr_file :: "string option"
  fr_line :: ulong
  fr_is_singleton_method :: bool
  fr_thread_id :: ulong

record rbkit_cpu_sample =
  sample_frame_count :: size_t
  sample_frames :: "rbkit_frame_data list"

text \<open>
  What the VM answers about a frame; \<open>None\<close> is nil. \<open>pf_first_lineno\<close> is the number after
  \<open>FIX2ULONG\<close>.
\<close>

record profile_frame =
  pf_method_name :: "string option"
  pf_full_label :: "string option"
  pf_absolute_path :: "string option"
  pf_path :: "string option"
  pf_first_lineno :: ulong
  pf_singleton_method :: bool

text \<open>\<open>StringValueCStr\<close> raises on nil and on a string with a NUL inside.\<close>

definition StringValueCStr :: "string option \<Rightarrow> c_error + string" where
  "StringValueCStr s =
     (case s of
        None \<Rightarrow> Inl TypeError
      | Some t \<Rightarrow> if CHR 0x00 \<in> set t then Inl ArgumentError else Inr t)"

definition BUF_SIZE :: nat where
  "BUF_SIZE = 2048"

definition sample_frame :: "ulong \<Rightarrow> profile_frame \<Rightarrow> c_error + rbkit_frame_data" where
  "sample_frame thread_id f =
     and_then (case pf_method_name f of
                 None \<Rightarrow> Inr None
               | Some n \<Rightarrow> and_then (StringValueCStr (Some n)) (\<lambda>n. Inr (Some n))) (\<lambda>method_name.
     and_then (StringValueCStr (pf_full_label f)) (\<lambda>label.
     and_then (StringValueCStr
                 (case pf_absolute_path f of None \<Rightarrow> pf_path f | Some p \<Rightarrow> Some p)) (\<lambda>file.
     Inr \<lparr>fr_method_name = method_name, fr_label = Some label, fr_file = Some file,
          fr_line = pf_first_lineno f, fr_is_singleton_method = pf_singleton_method f,
          fr_thread_id = thread_id\<rparr>)))"

fun sample_frame_list :: "ulong \<Rightarrow> profile_frame list \<Rightarrow> c_error + rbkit_frame_data list" where
  "sample_frame_list thread_id [] = Inr []"
| "sample_frame_list thread_id (f # fs) =
     and_then (sample_frame thread_id f) (\<lambda>d.
     and_then (sample_frame_list thread_id fs) (\<lambda>ds. Inr (d # ds)))"

text \<open>
  \<open>frames start limit\<close> is the stack as \<open>rb_profile_frames\<close> writes it into the buffers.
  Writing more than the buffers hold would be out of bounds.
\<close>

definition sampling_job_sample ::
  "(nat \<Rightarrow> nat \<Rightarrow> profile_frame list) \<Rightarrow> ulong \<Rightarrow> c_error + rbkit_cpu_sample" where
  "sampling_job_sample frames thread_id =
     (let collected = frames 0 BUF_SIZE
      in if BUF_SIZE < length collected then Inl Out_of_bounds
         else and_then (sample_frame_list thread_id collected) (\<lambda>ds.
              Inr \<lparr>sample_frame_count = of_nat (length collected), sample_frames = ds\<rparr>))"

text \<open>A frame whose strings exist and have no NUL is sampled without an exception.\<close>

definition frame_ok :: "profile_frame \<Rightarrow> bool" where
  "frame_ok f \<longleftrightarrow>
     (\<forall>s\<in>set_option (pf_method_name f). CHR 0x00 \<notin> set s)
   \<and> (\<exists>l. pf_full_label f = Some l \<and> CHR 0x00 \<notin> set l)
   \<and> (\<exists>p. (case pf_absolute_path f of None \<Rightarrow> pf_path f | Some q \<Rightarrow> Some q) = Some p
          \<and> CHR 0x00 \<notin> set p)"

definition frame_data_of :: "ulong \<Rightarrow> profile_frame \<Rightarrow> rbkit_frame_data" where
  "frame_data_of thread_id f =
     \<lparr>fr_method_name = pf_method_name f, fr_label = pf_full_label f,
      fr_file = (case pf_absolute_path f of None \<Rightarrow> pf_path f | Some p \<Rightarrow> Some p),
      fr_line = pf_first_lineno f, fr_is_singleton_method = pf_singleton_method f,
      fr_thread_id = thread_id\<rparr>"

lemma sample_frame_ok: "frame_ok f \<Longrightarrow> sample_frame t f = Inr (frame_data_of t f)"
  by (auto simp: frame_ok_def sample_frame_def frame_data_of_def StringValueCStr_def
      split: option.splits)

lemma sample_frame_list_ok:
  "list_all frame_ok fs \<Longrightarrow> sample_frame_list t fs = Inr (map (frame_data_of t) fs)"
  by (induction fs) (simp_all add: sample_frame_ok)

section \<open>Properties\<close>

text \<open>
  Claim C23. The sampling job keeps inside its 2048-entry buffers and turns the frames
  the VM reports, innermost first, into one sample with a record per frame, in the same
  order, with the absolute path where there is one and the plain path otherwise.
\<close>

theorem sampling_job_faithful:
  assumes "length (frames 0 BUF_SIZE) \<le> BUF_SIZE" and "list_all frame_ok (frames 0 BUF_SIZE)"
  shows "\<exists>s. sampling_job_sample frames t = Inr s
    \<and> sample_frames s = map (frame_data_of t) (frames 0 BUF_SIZE)
    \<and> unat (sample_frame_count s) = length (sample_frames s)"
  using assms
  by (simp add: sampling_job_sample_def Let_def sample_frame_list_ok unat_of_nat BUF_SIZE_def)

definition example_frames :: "nat \<Rightarrow> nat \<Rightarrow> profile_frame list" where
  "example_frames start limit = take limit (drop start
     [\<lparr>pf_method_name = None, pf_full_label = Some ''block in <main>'', pf_absolute_path = None,
       pf_path = Some ''(eval)'', pf_first_lineno = 1, pf_singleton_method = False\<rparr>,
      \<lparr>pf_method_name = Some ''foo'', pf_full_label = Some ''Foo#foo'',
       pf_absolute_path = Some ''/a.rb'', pf_path = Some ''a.rb'', pf_first_lineno = 3,
       pf_singleton_method = True\<rparr>])"

theorem sampling_job_faithful_witness:
  "\<exists>s. sampling_job_sample example_frames 9 = Inr s
     \<and> map fr_file (sample_frames s) = [Some ''(eval)'', Some ''/a.rb'']"
proof -
  have "length (example_frames 0 BUF_SIZE) \<le> BUF_SIZE"
    and "list_all frame_ok (example_frames 0 BUF_SIZE)"
    by (simp_all add: example_frames_def BUF_SIZE_def frame_ok_def)
  from sampling_job_faithful [of example_frames 9, OF this] show ?thesis
    by (auto simp: example_frames_def BUF_SIZE_def frame_data_of_def)
qed

text \<open>Any use of the two operations the server calls.\<close>

datatype profiler_op = Install bool c_int | Uninstall

fun profiler_step :: "profiler_op \<Rightarrow> profiler \<Rightarrow> profiler" where
  "profiler_step (Install wall interval) p = rbkit_install_sampling_profiler wall interval p"
| "profiler_step Uninstall p = rbkit_uninstall_sampling_profiler p"

definition no_fatal_timer :: "profiler \<Rightarrow> bool" where
  "no_fatal_timer p \<longleftrightarrow> (\<forall>w. armed p w \<longrightarrow> dispositions p (timer_signal w) \<noteq> SIG_DFL)"

lemmas profiler_defs = rbkit_install_sampling_profiler_def rbkit_uninstall_sampling_profiler_def
  install_signal_handler_def uninstall_signal_handler_def start_sigprof_timer_def
  stop_sigprof_timer_def sigaction_def setitimer_def armed_def no_time_def normalised_def Let_def

lemma profiler_step_no_fatal: "no_fatal_timer p \<Longrightarrow> no_fatal_timer (profiler_step op p)"
proof (cases op)
  case (Install wall interval)
  assume "no_fatal_timer p"
  with Install show ?thesis by (auto simp: no_fatal_timer_def profiler_defs)
next
  case Uninstall
  assume "no_fatal_timer p"
  with Uninstall show ?thesis by (auto simp: no_fatal_timer_def profiler_defs)
qed

text \<open>
  Whatever the order in which the profiler is installed (on either clock, at any
  interval) and uninstalled, no interval timer is ever armed while its signal still has
  the default action, which would kill the process: the handler is installed before the
  timer is started, and the timer is stopped before the signal is ignored.
\<close>

lemma profiler_never_fatal: "no_fatal_timer (fold profiler_step ops profiler_init)"
proof -
  have "no_fatal_timer p \<Longrightarrow> no_fatal_timer (fold profiler_step ops p)" for p
    by (induction ops arbitrary: p) (simp_all add: profiler_step_no_fatal)
  then show ?thesis by (simp add: no_fatal_timer_def profiler_init_def armed_def timer_off_def)
qed

lemma expire_other: "w' \<noteq> w \<Longrightarrow> timers (expire w p) w' = timers p w'"
  by (simp add: expire_def)

lemma armed_expire: "armed p w \<Longrightarrow> armed (expire w p) w' \<Longrightarrow> armed p w'"
  by (cases "w' = w") (simp_all add: armed_def expire_other)

lemma expire_frame [rbkit_frame]:
  "dispositions (expire w p) = dispositions p" "signal_type (expire w p) = signal_type p"
  "clock_type (expire w p) = clock_type p" "queue_func_set (expire w p) = queue_func_set p"
  by (simp_all add: expire_def)

text \<open>A periodic timer is loaded with the same time again and again.\<close>

lemma expire_periodic:
  assumes "it_value (timers p w) = it_interval (timers p w)"
  shows "(expire w ^^ n) p = p"
proof -
  have "(timers p w)\<lparr>it_value := it_interval (timers p w)\<rparr> = timers p w"
    using assms by (cases "timers p w") simp
  then have "expire w p = p" by (simp add: expire_def)
  then show ?thesis by (induction n) simp_all
qed

text \<open>
  Claim C37. The profiler samples periodically until it is uninstalled. An install handles
  the signal of the requested clock's timer and leaves the other timer alone. With an
  interval from 1 to 999999 microseconds the timer then runs, its first expiry and every
  later one that interval apart, however often it has expired, and an uninstall stops it
  at any point and ignores its signal. With 0 it does not run; with a second or more, or a
  negative number, the call that should set it is refused and the timers stay as they
  were, which nothing reports.
\<close>

theorem install_arms_timer:
  "let w = (if wall then ITIMER_REAL else ITIMER_PROF); q = rbkit_install_sampling_profiler wall interval p
   in dispositions q (timer_signal w) = Handler
    \<and> (\<forall>w'. w' \<noteq> w \<longrightarrow> timers q w' = timers p w')
    \<and> (1 \<le> sint interval \<and> sint interval < 1000000 \<longrightarrow> (\<forall>n.
         let r = (expire w ^^ n) q; u = rbkit_uninstall_sampling_profiler r
         in armed r w \<and> wall_usec (it_value (timers r w)) = sint interval
          \<and> \<not> armed u w \<and> dispositions u (timer_signal w) = SIG_IGN))
    \<and> (sint interval = 0 \<longrightarrow> \<not> armed q w)
    \<and> (sint interval < 0 \<or> 1000000 \<le> sint interval \<longrightarrow> timers q = timers p)"
proof -
  let ?w = "if wall then ITIMER_REAL else ITIMER_PROF"
    and ?q = "rbkit_install_sampling_profiler wall interval p"
  have "(expire ?w ^^ n) ?q = ?q" if "0 \<le> sint interval" "sint interval < 1000000" for n
    using that by (intro expire_periodic) (simp add: profiler_defs)
  then show ?thesis by (simp add: Let_def) (auto simp: profiler_defs wall_usec_def)
qed

theorem install_arms_timer_witness:
  "armed ((expire ITIMER_REAL ^^ 7) (rbkit_install_sampling_profiler True 1000 profiler_init)) ITIMER_REAL
   \<and> timers (rbkit_install_sampling_profiler True 1000000 profiler_init) = timers profiler_init"
proof -
  have "sint (1000 :: c_int) = 1000" "sint (1000000 :: c_int) = 1000000" by simp_all
  with install_arms_timer [of True 1000 profiler_init] install_arms_timer [of True 1000000 profiler_init]
  show ?thesis by (simp add: Let_def)
qed

section \<open>The build for developers\<close>

text \<open>
  With \<open>RBKIT_DEV\<close> the signal handler adds up the wall and processor time it takes, an
  install resets both sums and an uninstall prints them. \<open>dev_report\<close> are the lines printed.
\<close>

record reading =
  rd_wall :: timeval
  rd_cpu :: timespec

record dev_profiler =
  dev_base :: profiler
  dev_jobs :: "job list"
  total_wall_time_spent_in_sampling :: double
  total_cpu_time_spent_in_sampling :: double
  dev_report :: "(double \<times> double) list"

definition wall_spent :: "float_ops \<Rightarrow> reading \<Rightarrow> reading \<Rightarrow> double" where
  "wall_spent fl before after =
     fl_sub fl (get_wall_time_in_usec (fl_of_int fl) (rd_wall after)) (get_wall_time_in_usec (fl_of_int fl) (rd_wall before))"

definition cpu_spent :: "float_ops \<Rightarrow> reading \<Rightarrow> reading \<Rightarrow> double" where
  "cpu_spent fl before after =
     fl_sub fl (get_cpu_time_in_usec fl (rd_cpu after)) (get_cpu_time_in_usec fl (rd_cpu before))"

definition signal_handler_dev ::
  "float_ops \<Rightarrow> nat \<Rightarrow> reading \<Rightarrow> reading \<Rightarrow> dev_profiler \<Rightarrow> dev_profiler" where
  "signal_handler_dev fl capacity before after d =
     d\<lparr>dev_jobs := signal_handler capacity (dev_jobs d),
       total_wall_time_spent_in_sampling :=
         fl_add fl (total_wall_time_spent_in_sampling d) (wall_spent fl before after),
       total_cpu_time_spent_in_sampling :=
         fl_add fl (total_cpu_time_spent_in_sampling d) (cpu_spent fl before after)\<rparr>"

definition install_signal_handler_dev :: "float_ops \<Rightarrow> dev_profiler \<Rightarrow> dev_profiler" where
  "install_signal_handler_dev fl d =
     (let d = d\<lparr>total_cpu_time_spent_in_sampling := fl_of_int fl 0,
                total_wall_time_spent_in_sampling := fl_of_int fl 0\<rparr>
      in d\<lparr>dev_base := install_signal_handler (dev_base d)\<rparr>)"

definition uninstall_signal_handler_dev :: "dev_profiler \<Rightarrow> dev_profiler" where
  "uninstall_signal_handler_dev d =
     (let d = d\<lparr>dev_base := uninstall_signal_handler (dev_base d)\<rparr>
      in d\<lparr>dev_report := dev_report d @
             [(total_wall_time_spent_in_sampling d, total_cpu_time_spent_in_sampling d)]\<rparr>)"

text \<open>The two operations of the server over these handlers.\<close>

definition install_dev :: "float_ops \<Rightarrow> bool \<Rightarrow> c_int \<Rightarrow> dev_profiler \<Rightarrow> dev_profiler" where
  "install_dev fl wall_time interval d =
     (let p = (dev_base d)\<lparr>queue_func_set := True\<rparr>;
          p = (if wall_time then p\<lparr>signal_type := SIGALRM, clock_type := ITIMER_REAL\<rparr>
               else p\<lparr>signal_type := SIGPROF, clock_type := ITIMER_PROF\<rparr>);
          d = install_signal_handler_dev fl (d\<lparr>dev_base := p\<rparr>)
      in d\<lparr>dev_base := start_sigprof_timer interval (dev_base d)\<rparr>)"

definition uninstall_dev :: "dev_profiler \<Rightarrow> dev_profiler" where
  "uninstall_dev d = uninstall_signal_handler_dev (d\<lparr>dev_base := stop_sigprof_timer (dev_base d)\<rparr>)"

datatype dev_op = Dev_install bool c_int | Dev_signal reading reading | Dev_uninstall

fun dev_step :: "float_ops \<Rightarrow> nat \<Rightarrow> dev_op \<Rightarrow> dev_profiler \<Rightarrow> dev_profiler" where
  "dev_step fl capacity (Dev_install wall interval) d = install_dev fl wall interval d"
| "dev_step fl capacity (Dev_signal before after) d = signal_handler_dev fl capacity before after d"
| "dev_step fl capacity Dev_uninstall d = uninstall_dev d"

fun release_step :: "nat \<Rightarrow> dev_op \<Rightarrow> profiler \<times> job list \<Rightarrow> profiler \<times> job list" where
  "release_step capacity (Dev_install wall interval) (p, js) = (rbkit_install_sampling_profiler wall interval p, js)"
| "release_step capacity (Dev_signal before after) (p, js) = (p, signal_handler capacity js)"
| "release_step capacity Dev_uninstall (p, js) = (rbkit_uninstall_sampling_profiler p, js)"

lemma dev_step_release:
  "(dev_base (dev_step fl capacity op d), dev_jobs (dev_step fl capacity op d))
     = release_step capacity op (dev_base d, dev_jobs d)"
  by (cases op) (simp_all add: install_dev_def uninstall_dev_def signal_handler_dev_def
    install_signal_handler_dev_def uninstall_signal_handler_dev_def rbkit_install_sampling_profiler_def
    rbkit_uninstall_sampling_profiler_def Let_def)

lemma dev_signals_totals:
  "total_wall_time_spent_in_sampling (fold (dev_step fl capacity) (map (\<lambda>(b, a). Dev_signal b a) rs) d)
     = foldl (fl_add fl) (total_wall_time_spent_in_sampling d) (map (\<lambda>(b, a). wall_spent fl b a) rs)
   \<and> total_cpu_time_spent_in_sampling (fold (dev_step fl capacity) (map (\<lambda>(b, a). Dev_signal b a) rs) d)
     = foldl (fl_add fl) (total_cpu_time_spent_in_sampling d) (map (\<lambda>(b, a). cpu_spent fl b a) rs)
   \<and> dev_report (fold (dev_step fl capacity) (map (\<lambda>(b, a). Dev_signal b a) rs) d) = dev_report d"
  by (induction rs arbitrary: d) (auto simp: signal_handler_dev_def)

text \<open>
  Claim C36. The developers' build profiles as the release build does: after any sequence
  of installs, signals and uninstalls the timers, the signal dispositions and the pending
  jobs are the same. What it prints when the profiler is uninstalled are the sums of what
  the signals since the last install have cost, and nothing from before.
\<close>

theorem dev_build_equivalent:
  "(dev_base (fold (dev_step fl capacity) ops d), dev_jobs (fold (dev_step fl capacity) ops d))
     = fold (release_step capacity) ops (dev_base d, dev_jobs d)
   \<and> dev_report (fold (dev_step fl capacity)
         (Dev_install wall interval # map (\<lambda>(b, a). Dev_signal b a) rs @ [Dev_uninstall]) d)
     = dev_report d @ [(foldl (fl_add fl) (fl_of_int fl 0) (map (\<lambda>(b, a). wall_spent fl b a) rs),
                        foldl (fl_add fl) (fl_of_int fl 0) (map (\<lambda>(b, a). cpu_spent fl b a) rs))]"
proof
  show "(dev_base (fold (dev_step fl capacity) ops d), dev_jobs (fold (dev_step fl capacity) ops d))
     = fold (release_step capacity) ops (dev_base d, dev_jobs d)"
    by (induction ops arbitrary: d) (simp_all add: dev_step_release)
  let ?d = "install_dev fl wall interval d"
  have "dev_report ?d = dev_report d" "total_wall_time_spent_in_sampling ?d = fl_of_int fl 0"
    "total_cpu_time_spent_in_sampling ?d = fl_of_int fl 0"
    by (simp_all add: install_dev_def install_signal_handler_dev_def Let_def)
  with dev_signals_totals [of fl capacity rs ?d]
  show "dev_report (fold (dev_step fl capacity)
         (Dev_install wall interval # map (\<lambda>(b, a). Dev_signal b a) rs @ [Dev_uninstall]) d)
     = dev_report d @ [(foldl (fl_add fl) (fl_of_int fl 0) (map (\<lambda>(b, a). wall_spent fl b a) rs),
                        foldl (fl_add fl) (fl_of_int fl 0) (map (\<lambda>(b, a). cpu_spent fl b a) rs))]"
    by (simp add: uninstall_dev_def uninstall_signal_handler_dev_def Let_def)
qed

end
