(* ===== verification/Rbkit_Event.thy ===== *)
theory Rbkit_Event
  imports Object_Graph Sampling_Profiler
begin

text \<open>
  \<open>ext/rbkit_event.c\<close> and \<open>.h\<close>: the kinds of event, the structs that carry them and
  their constructors. An event is one of seven structs, each starting with the header;
  the code of the header is a C \<open>int\<close>, since \<open>send_hash_as_event\<close> takes it from Ruby
  unchecked.
\<close>

section \<open>The event types\<close>

datatype rbkit_event_type =
    obj_created
  | obj_destroyed
  | gc_start
  | gc_end_m
  | gc_end_s
  | object_space_dump
  | gc_stats
  | event_collection
  | handshake
  | cpu_sample

text \<open>The value C gives an enumerator: its position.\<close>

fun event_code :: "rbkit_event_type \<Rightarrow> c_int" where
  "event_code obj_created = 0"
| "event_code obj_destroyed = 1"
| "event_code gc_start = 2"
| "event_code gc_end_m = 3"
| "event_code gc_end_s = 4"
| "event_code object_space_dump = 5"
| "event_code gc_stats = 6"
| "event_code event_collection = 7"
| "event_code handshake = 8"
| "event_code cpu_sample = 9"

text \<open>The enumerators are ordered as C compares them.\<close>

instantiation rbkit_event_type :: linorder
begin

definition less_eq_rbkit_event_type :: "rbkit_event_type \<Rightarrow> rbkit_event_type \<Rightarrow> bool" where
  "less_eq_rbkit_event_type a b \<longleftrightarrow> event_code a \<le> event_code b"

definition less_rbkit_event_type :: "rbkit_event_type \<Rightarrow> rbkit_event_type \<Rightarrow> bool" where
  "less_rbkit_event_type a b \<longleftrightarrow> event_code a < event_code b"

instance
proof
  fix a b :: rbkit_event_type
  assume "a \<le> b" "b \<le> a"
  then have "event_code a = event_code b" by (simp add: less_eq_rbkit_event_type_def)
  then show "a = b" by (cases a; cases b) simp_all
qed (auto simp: less_eq_rbkit_event_type_def less_rbkit_event_type_def)

end

lemma event_code_inject [simp]: "event_code a = event_code b \<longleftrightarrow> a = b"
  by (cases a; cases b) simp_all

text \<open>All the enumerators, in the order of the enum.\<close>

definition event_types :: "rbkit_event_type list" where
  "event_types = [obj_created, obj_destroyed, gc_start, gc_end_m, gc_end_s, object_space_dump,
     gc_stats, event_collection, handshake, cpu_sample]"

lemma event_types_UNIV: "t \<in> set event_types"
  by (cases t) (simp_all add: event_types_def)

text \<open>The enumerator a code stands for, as the \<open>switch\<close> on it sees.\<close>

definition event_type_of :: "c_int \<Rightarrow> rbkit_event_type option" where
  "event_type_of c = find (\<lambda>t. event_code t = c) event_types"

lemma event_type_of_code [simp]: "event_type_of (event_code t) = Some t"
  by (cases t) (simp_all add: event_type_of_def event_types_def)

lemma event_type_of_simps [simp]:
  "event_type_of 0 = Some obj_created" "event_type_of 1 = Some obj_destroyed"
  "event_type_of 2 = Some gc_start" "event_type_of 3 = Some gc_end_m"
  "event_type_of 4 = Some gc_end_s" "event_type_of 5 = Some object_space_dump"
  "event_type_of 6 = Some gc_stats" "event_type_of 7 = Some event_collection"
  "event_type_of 8 = Some handshake" "event_type_of 9 = Some cpu_sample"
  by (simp_all add: event_type_of_def event_types_def)

lemma event_type_of_Some: "event_type_of c = Some t \<longleftrightarrow> c = event_code t"
  by (auto simp: event_type_of_def find_Some_iff event_types_UNIV)
    (metis event_type_of_code event_type_of_def find_Some_iff)

text \<open>The constant \<open>Rbkit::EVENT_TYPES\<close>.\<close>

definition rbkit_event_types_as_hash :: "(string \<times> c_int) list" where
  "rbkit_event_types_as_hash =
     [(''obj_created'', event_code obj_created),
      (''obj_destroyed'', event_code obj_destroyed),
      (''gc_start'', event_code gc_start),
      (''gc_end_m'', event_code gc_end_m),
      (''gc_end_s'', event_code gc_end_s),
      (''object_space_dump'', event_code object_space_dump),
      (''gc_stats'', event_code gc_stats),
      (''event_collection'', event_code event_collection),
      (''handshake'', event_code handshake),
      (''cpu_sample'', event_code cpu_sample)]"

section \<open>The event structs\<close>

text \<open>
  A Ruby value as \<open>pack_value_object\<close> takes it apart: an integer, a float, or anything
  else by what its \<open>to_s\<close> returns. A hash is its pairs in insertion order.
\<close>

datatype rb_object =
    T_FIXNUM "64 word"
  | T_FLOAT double
  | T_OBJECT string

type_synonym rb_hash = "(rb_object \<times> rb_object) list"

text \<open>
  The progress of a heap dump: \<open>ev_pages\<close> are the pages from \<open>current_page\<close> on; the pages
  before it have been freed.
\<close>

record rbkit_object_space_dump_event =
  ev_packed_objects :: size_t
  ev_object_count :: size_t
  ev_pages :: "rbkit_object_dump_page list"
  ev_current_page_index :: size_t
  ev_correlation_id :: c_int

text \<open>The first argument of each constructor is \<open>event_header.event_type\<close>.\<close>

datatype rbkit_event =
    Event_header c_int
  | Obj_created_event c_int ulong "string option" rbkit_allocation_info
  | Obj_destroyed_event c_int ulong
  | Hash_event c_int rb_hash
  | Object_space_dump_event c_int rbkit_object_space_dump_event
  | Cpu_sample_event c_int rbkit_cpu_sample
  | Event_collection_event c_int "block option" size_t size_t

fun event_type :: "rbkit_event \<Rightarrow> c_int" where
  "event_type (Event_header t) = t"
| "event_type (Obj_created_event t _ _ _) = t"
| "event_type (Obj_destroyed_event t _) = t"
| "event_type (Hash_event t _) = t"
| "event_type (Object_space_dump_event t _) = t"
| "event_type (Cpu_sample_event t _) = t"
| "event_type (Event_collection_event t _ _ _) = t"

definition new_rbkit_obj_created_event ::
  "ulong \<Rightarrow> string option \<Rightarrow> rbkit_allocation_info \<Rightarrow> rbkit_event" where
  "new_rbkit_obj_created_event object_id klass info =
     Obj_created_event (event_code obj_created) object_id klass info"

definition new_rbkit_obj_destroyed_event :: "ulong \<Rightarrow> rbkit_event" where
  "new_rbkit_obj_destroyed_event object_id =
     Obj_destroyed_event (event_code obj_destroyed) object_id"

definition new_rbkit_hash_event :: "c_int \<Rightarrow> rb_hash \<Rightarrow> rbkit_event" where
  "new_rbkit_hash_event t hash = Hash_event t hash"

text \<open>
  The constructor of a dump event counts up the file's static \<open>correlation_id\<close>, the second
  component of the result. It reads the dump's object count, which must have been set.
\<close>

definition new_rbkit_object_space_dump_event ::
  "c_int \<Rightarrow> rbkit_object_dump \<Rightarrow> c_error + rbkit_object_space_dump_event \<times> c_int" where
  "new_rbkit_object_space_dump_event correlation_id dump =
     (case dump_object_count dump of
        None \<Rightarrow> Inl Uninitialised_read
      | Some n \<Rightarrow>
          Inr (\<lparr>ev_packed_objects = 0, ev_object_count = n, ev_pages = dump_pages dump,
                ev_current_page_index = 0, ev_correlation_id = correlation_id + 1\<rparr>,
               correlation_id + 1))"

definition new_rbkit_cpu_sample_event :: "rbkit_cpu_sample \<Rightarrow> rbkit_event" where
  "new_rbkit_cpu_sample_event sample = Cpu_sample_event (event_code cpu_sample) sample"

definition new_rbkit_event_collection_event :: "block option \<Rightarrow> size_t \<Rightarrow> size_t \<Rightarrow> rbkit_event" where
  "new_rbkit_event_collection_event buffer buffer_size message_count =
     Event_collection_event (event_code event_collection) buffer buffer_size message_count"

section \<open>Reading a dump record by record\<close>

text \<open>
  The contract between the dump and its reader: \<open>next\<close> hands over the records that
  \<open>rest\<close> lists, one at a time and in order, and does not fail while there are any. A loop
  that handles a given number of records then handles exactly the first ones.
\<close>

locale record_cursor =
  fixes next_record :: "'c \<Rightarrow> c_error + 'a \<times> 'c"
    and rest :: "'c \<Rightarrow> 'a list"
    and cursor_ok :: "'c \<Rightarrow> bool"
  assumes next_record_Cons: "cursor_ok c \<Longrightarrow> rest c = x # xs \<Longrightarrow>
    \<exists>c'. next_record c = Inr (x, c') \<and> cursor_ok c' \<and> rest c' = xs"
begin

lemma loop_reads:
  assumes loop_0: "\<And>c. loop 0 c = Inr ([], c)"
    and loop_Suc: "\<And>n c. loop (Suc n) c =
      and_then (next_record c) (\<lambda>(x, c). and_then (handle x) (\<lambda>out.
        and_then (loop n c) (\<lambda>(outs, c). Inr (out @ outs, c))))"
  shows "cursor_ok c \<Longrightarrow> n \<le> length (rest c) \<Longrightarrow>
    (\<And>x. x \<in> set (rest c) \<Longrightarrow> handle x = Inr (f x)) \<Longrightarrow>
    \<exists>c'. loop n c = Inr (concat (map f (take n (rest c))), c') \<and> cursor_ok c' \<and> rest c' = drop n (rest c)"
proof (induction n arbitrary: c)
  case 0
  then show ?case by (simp add: loop_0)
next
  case (Suc n)
  from Suc.prems(2) obtain x xs where x: "rest c = x # xs" by (cases "rest c") auto
  from next_record_Cons [OF Suc.prems(1) x] obtain c1 where
    c1: "next_record c = Inr (x, c1)" "cursor_ok c1" "rest c1 = xs" by blast
  have "\<exists>c'. loop n c1 = Inr (concat (map f (take n (rest c1))), c') \<and> cursor_ok c'
      \<and> rest c' = drop n (rest c1)"
    using Suc.prems x c1 by (intro Suc.IH) auto
  moreover have "handle x = Inr (f x)" using Suc.prems(3) x by simp
  ultimately show ?case using c1 x by (auto simp: loop_Suc)
qed

end

text \<open>
  The reader of a dump event: past the last slot of a page it moves to the next page (the
  old one is freed), then takes the slot at the page index.
\<close>

definition next_object ::
  "rbkit_object_space_dump_event \<Rightarrow> c_error + rbkit_object_data \<times> rbkit_object_space_dump_event" where
  "next_object ev =
     and_then
       (if ev_current_page_index ev = of_nat RBKIT_OBJECT_DUMP_PAGE_SIZE
        then (case ev_pages ev of
                [] \<Rightarrow> Inl Null_dereference
              | p # ps \<Rightarrow> Inr (ev\<lparr>ev_current_page_index := 0, ev_pages := ps\<rparr>))
        else Inr ev)
       (\<lambda>ev.
          case ev_pages ev of
            [] \<Rightarrow> Inl Null_dereference
          | page # ps \<Rightarrow>
              let i = unat (ev_current_page_index ev)
              in if i < length (pg_data page)
                 then Inr (pg_data page ! i,
                           ev\<lparr>ev_current_page_index := ev_current_page_index ev + 1,
                              ev_packed_objects := ev_packed_objects ev + 1\<rparr>)
                 else Inl Uninitialised_read)"

definition dump_rest :: "rbkit_object_space_dump_event \<Rightarrow> rbkit_object_data list" where
  "dump_rest ev =
     (case ev_pages ev of
        [] \<Rightarrow> []
      | p # ps \<Rightarrow> drop (unat (ev_current_page_index ev)) (pg_data p) @ concat (map pg_data ps))"

definition dump_cursor_ok :: "rbkit_object_space_dump_event \<Rightarrow> bool" where
  "dump_cursor_ok ev \<longleftrightarrow>
     pages_ok (ev_pages ev)
   \<and> (ev_pages ev \<noteq> [] \<longrightarrow>
        unat (ev_current_page_index ev) \<le> length (pg_data (hd (ev_pages ev))))
   \<and> unat (ev_packed_objects ev) + length (dump_rest ev) = unat (ev_object_count ev)"

lemma pages_ok_tl: "pages_ok (p # ps) \<Longrightarrow> pages_ok ps"
  by (cases ps) (auto simp: pages_ok_def)

lemma pages_ok_hd:
  "pages_ok (p # ps) \<Longrightarrow> page_wf p \<and> (ps \<noteq> [] \<longrightarrow> page_full p)"
  by (cases ps) (auto simp: pages_ok_def)

text \<open>The slot under the cursor, once the cursor stands on a slot in use.\<close>

lemma next_object_slot:
  assumes ok: "dump_cursor_ok ev" and p: "ev_pages ev = p # ps"
    and i: "unat (ev_current_page_index ev) < length (pg_data p)" and r: "dump_rest ev = x # xs"
  shows "\<exists>ev'. next_object ev = Inr (x, ev') \<and> dump_cursor_ok ev' \<and> dump_rest ev' = xs"
proof -
  let ?i = "unat (ev_current_page_index ev)"
  let ?ev = "ev\<lparr>ev_current_page_index := ev_current_page_index ev + 1,
                ev_packed_objects := ev_packed_objects ev + 1\<rparr>"
  have wf: "page_wf p" using ok p pages_ok_hd by (auto simp: dump_cursor_ok_def)
  then have lim: "length (pg_data p) \<le> 1000" by (simp add: page_wf_def RBKIT_OBJECT_DUMP_PAGE_SIZE_def)
  have ne: "ev_current_page_index ev \<noteq> of_nat RBKIT_OBJECT_DUMP_PAGE_SIZE"
    using i lim by (auto simp: RBKIT_OBJECT_DUMP_PAGE_SIZE_def)
  have x: "pg_data p ! ?i = x" and xs: "xs = drop (Suc ?i) (pg_data p) @ concat (map pg_data ps)"
    using r p i by (simp_all add: dump_rest_def flip: Cons_nth_drop_Suc)
  have i': "unat (ev_current_page_index ev + 1) = Suc ?i"
    using i lim by (intro unat_Suc_small) simp
  have "unat (ev_packed_objects ev) < unat (ev_object_count ev)"
    using ok r by (auto simp: dump_cursor_ok_def)
  then have k': "unat (ev_packed_objects ev + 1) = Suc (unat (ev_packed_objects ev))"
    using unsigned_less [of "ev_object_count ev", where ?'a = nat] by (intro unat_Suc_small) simp
  have "next_object ev = Inr (x, ?ev)"
    using ne p i x by (simp add: next_object_def Let_def)
  moreover have rest: "dump_rest ?ev = xs"
    using p xs i' by (simp add: dump_rest_def)
  moreover have "dump_cursor_ok ?ev"
    using ok p i i' k' r rest by (simp add: dump_cursor_ok_def)
  ultimately show ?thesis by blast
qed

lemma next_object_step:
  assumes ok: "dump_cursor_ok ev" and r: "dump_rest ev = x # xs"
  shows "\<exists>ev'. next_object ev = Inr (x, ev') \<and> dump_cursor_ok ev' \<and> dump_rest ev' = xs"
proof -
  from r obtain p ps where p: "ev_pages ev = p # ps"
    by (cases "ev_pages ev") (auto simp: dump_rest_def)
  let ?i = "unat (ev_current_page_index ev)"
  from ok p have ps: "pages_ok (p # ps)" and le: "?i \<le> length (pg_data p)"
    by (simp_all add: dump_cursor_ok_def)
  show ?thesis
  proof (cases "?i < length (pg_data p)")
    case True
    from next_object_slot [OF ok p True r] show ?thesis .
  next
    case False
    with le have i: "?i = length (pg_data p)" by simp
    with r p obtain q qs where q: "ps = q # qs"
      by (cases ps) (auto simp: dump_rest_def)
    with pages_ok_hd [OF ps] have full: "?i = 1000"
      using i by (simp add: page_full_def RBKIT_OBJECT_DUMP_PAGE_SIZE_def)
    let ?ev = "ev\<lparr>ev_current_page_index := 0, ev_pages := q # qs\<rparr>"
    have w: "ev_current_page_index ev = of_nat RBKIT_OBJECT_DUMP_PAGE_SIZE"
      using full by (simp add: RBKIT_OBJECT_DUMP_PAGE_SIZE_def word_unat_eq_iff)
    have rest: "dump_rest ?ev = dump_rest ev"
      using p q i by (simp add: dump_rest_def)
    have "page_wf q" using pages_ok_tl [OF ps] q pages_ok_hd by blast
    then have "0 < length (pg_data q)" by (simp add: page_wf_def)
    moreover have "dump_cursor_ok ?ev"
      using ok p q pages_ok_tl [OF ps] rest by (simp add: dump_cursor_ok_def)
    ultimately have "\<exists>ev'. next_object ?ev = Inr (x, ev') \<and> dump_cursor_ok ev' \<and> dump_rest ev' = xs"
      using r rest by (intro next_object_slot [of ?ev q qs]) auto
    moreover have "next_object ?ev = next_object ev"
      using w p q by (simp add: next_object_def RBKIT_OBJECT_DUMP_PAGE_SIZE_def)
    ultimately show ?thesis by simp
  qed
qed

interpretation dump_reader: record_cursor next_object dump_rest dump_cursor_ok
  by unfold_locales (rule next_object_step)

end
