(* ===== verification/Msgpack_Model.thy ===== *)
theory Msgpack_Model
  imports Rbkit_Prelude
begin

text \<open>
  The boundary to the msgpack C library, which is not part of the repository. A
  packing routine is modelled by the sequence of \<open>msgpack_pack_*\<close> calls it makes; the
  bytes a call appends to the \<open>msgpack_sbuffer\<close> are given by the argument \<open>enc\<close> of the
  definitions that need them, and a reader of the format by the argument \<open>dec\<close>. What
  the format's documentation promises of the two is the predicate \<open>msgpack_codec\<close>.

  The second half says what a well-formed call sequence is: \<open>items\<close> turns calls into
  the items on the wire, \<open>ser\<close> lays a value out as items, \<open>parse_vals\<close> reads it back.
\<close>

section \<open>The calls of the library's packer\<close>

text \<open>
  One constructor for each library function the sources call. With msgpack below 1.0
  the sources call \<open>msgpack_pack_raw\<close> and \<open>msgpack_pack_raw_body\<close> in place of the two
  string functions, with the same arguments.
\<close>

datatype mp_call =
    Pack_nil
  | Pack_int c_int
  | Pack_long "64 word"
  | Pack_unsigned_long ulong
  | Pack_unsigned_long_long "64 word"
  | Pack_double double
  | Pack_map size_t
  | Pack_array size_t
  | Pack_str size_t
  | Pack_str_body string size_t

text \<open>A \<open>msgpack_sbuffer\<close>: its \<open>data\<close> up to its \<open>size\<close>.\<close>

type_synonym sbuffer = "byte list"

definition emit :: "(mp_call \<Rightarrow> byte list) \<Rightarrow> mp_call list \<Rightarrow> sbuffer" where
  "emit enc cs = concat (map enc cs)"

lemma emit_Nil [simp]: "emit enc [] = []"
  and emit_Cons [simp]: "emit enc (c # cs) = enc c @ emit enc cs"
  and emit_append [simp]: "emit enc (cs @ ds) = emit enc cs @ emit enc ds"
  by (simp_all add: emit_def)

section \<open>Items on the wire\<close>

datatype mp_item =
    INil
  | IInt int
  | IDouble double
  | IMap nat
  | IArray nat
  | IStr string

text \<open>
  The items a sequence of calls stands for. A string is a header call followed by a
  body call of the same length; headers hold 32-bit counts. Anything else is no
  well-formed use of the packer.
\<close>

fun items :: "mp_call list \<Rightarrow> mp_item list option" where
  "items [] = Some []"
| "items (Pack_str n # Pack_str_body s m # cs) =
     (if n = m \<and> unat n = length s \<and> length s < 2 ^ 32
      then map_option ((#) (IStr s)) (items cs) else None)"
| "items (Pack_str n # cs) = None"
| "items (Pack_str_body s m # cs) = None"
| "items (Pack_nil # cs) = map_option ((#) INil) (items cs)"
| "items (Pack_int i # cs) = map_option ((#) (IInt (sint i))) (items cs)"
| "items (Pack_long i # cs) = map_option ((#) (IInt (sint i))) (items cs)"
| "items (Pack_unsigned_long u # cs) = map_option ((#) (IInt (uint u))) (items cs)"
| "items (Pack_unsigned_long_long u # cs) = map_option ((#) (IInt (uint u))) (items cs)"
| "items (Pack_double d # cs) = map_option ((#) (IDouble d)) (items cs)"
| "items (Pack_map n # cs) =
     (if unat n < 2 ^ 32 then map_option ((#) (IMap (unat n))) (items cs) else None)"
| "items (Pack_array n # cs) =
     (if unat n < 2 ^ 32 then map_option ((#) (IArray (unat n))) (items cs) else None)"

lemma items_append:
  "items cs = Some is \<Longrightarrow> items (cs @ ds) = map_option ((@) is) (items ds)"
proof (induction cs arbitrary: "is" rule: items.induct)
  case 1
  then show ?case by (cases "items ds") auto
qed (cases "items ds"; force split: if_splits)+

lemma items_append_Some:
  "items cs = Some is \<Longrightarrow> items ds = Some js \<Longrightarrow> items (cs @ ds) = Some (is @ js)"
  by (simp add: items_append)

section \<open>Values\<close>

datatype mval =
    VNil
  | VInt int
  | VDouble double
  | VStr string
  | VArray "mval list"
  | VMap "(mval \<times> mval) list"

fun ser :: "mval \<Rightarrow> mp_item list" where
  "ser VNil = [INil]"
| "ser (VInt i) = [IInt i]"
| "ser (VDouble d) = [IDouble d]"
| "ser (VStr s) = [IStr s]"
| "ser (VArray vs) = IArray (length vs) # concat (map ser vs)"
| "ser (VMap kvs) = IMap (length kvs) # concat (map (\<lambda>(k, v). ser k @ ser v) kvs)"

definition sers :: "mval list \<Rightarrow> mp_item list" where
  "sers vs = concat (map ser vs)"

lemma sers_Nil [simp]: "sers [] = []"
  and sers_Cons [simp]: "sers (v # vs) = ser v @ sers vs"
  and sers_append [simp]: "sers (vs @ ws) = sers vs @ sers ws"
  by (simp_all add: sers_def)

text \<open>The keys and values of a map, one after the other.\<close>

fun unpairs :: "(mval \<times> mval) list \<Rightarrow> mval list" where
  "unpairs [] = []"
| "unpairs ((k, v) # kvs) = k # v # unpairs kvs"

fun pairs :: "mval list \<Rightarrow> (mval \<times> mval) list" where
  "pairs (k # v # vs) = (k, v) # pairs vs"
| "pairs _ = []"

lemma pairs_unpairs [simp]: "pairs (unpairs kvs) = kvs"
  by (induction kvs rule: unpairs.induct) auto

lemma length_unpairs [simp]: "length (unpairs kvs) = 2 * length kvs"
  by (induction kvs rule: unpairs.induct) auto

lemma unpairs_append [simp]: "unpairs (as @ bs) = unpairs as @ unpairs bs"
  by (induction as rule: unpairs.induct) auto

lemma ser_VArray: "ser (VArray vs) = IArray (length vs) # sers vs"
  by (simp add: sers_def)

lemma ser_VMap: "ser (VMap kvs) = IMap (length kvs) # sers (unpairs kvs)"
  by (induction kvs rule: unpairs.induct) (auto simp: sers_def)

declare ser.simps(5,6) [simp del]
declare ser_VArray [simp] ser_VMap [simp]

section \<open>Reading values back\<close>

text \<open>
  \<open>parse_vals fuel n is\<close> reads \<open>n\<close> values. Each unit of fuel pays for one item, so the
  number of items is enough (\<open>parse_vals_sers\<close>).
\<close>

fun parse_vals :: "nat \<Rightarrow> nat \<Rightarrow> mp_item list \<Rightarrow> (mval list \<times> mp_item list) option" where
  "parse_vals f 0 is = Some ([], is)"
| "parse_vals 0 (Suc n) is = None"
| "parse_vals (Suc f) (Suc n) [] = None"
| "parse_vals (Suc f) (Suc n) (i # is) =
     (case (case i of
              INil \<Rightarrow> Some (VNil, is)
            | IInt k \<Rightarrow> Some (VInt k, is)
            | IDouble d \<Rightarrow> Some (VDouble d, is)
            | IStr s \<Rightarrow> Some (VStr s, is)
            | IArray m \<Rightarrow> map_option (\<lambda>(vs, r). (VArray vs, r)) (parse_vals f m is)
            | IMap m \<Rightarrow> map_option (\<lambda>(vs, r). (VMap (pairs vs), r)) (parse_vals f (2 * m) is)) of
        None \<Rightarrow> None
      | Some (v, r) \<Rightarrow> map_option (\<lambda>(vs, r'). (v # vs, r')) (parse_vals f n r))"

lemma ser_neq_Nil [simp]: "ser v \<noteq> []"
  by (cases v) auto

lemma parse_vals_sers:
  "length (sers vs) \<le> f \<Longrightarrow> parse_vals f (length vs) (sers vs @ r) = Some (vs, r)"
proof (induction "length (sers vs)" arbitrary: vs r f rule: less_induct)
  case less
  show ?case
  proof (cases vs)
    case Nil
    then show ?thesis by (cases f) auto
  next
    case (Cons v ws)
    then have "0 < length (sers vs)" by simp
    with less.prems obtain g where f: "f = Suc g" by (cases f) auto
    have g: "length (sers ws) \<le> g"
      using less.prems Cons f by (cases "ser v") auto
    then have rest: "parse_vals g (length ws) (sers ws @ r) = Some (ws, r)"
      using Cons by (intro less.hyps) auto
    show ?thesis
    proof (cases v)
      case (VArray us)
      have "parse_vals g (length us) (sers us @ (sers ws @ r)) = Some (us, sers ws @ r)"
        using less.prems Cons f VArray by (intro less.hyps) auto
      with rest Cons f VArray show ?thesis by simp
    next
      case (VMap kvs)
      have "parse_vals g (length (unpairs kvs)) (sers (unpairs kvs) @ (sers ws @ r))
              = Some (unpairs kvs, sers ws @ r)"
        using less.prems Cons f VMap by (intro less.hyps) auto
      with rest Cons f VMap show ?thesis by simp
    qed (use rest Cons f in auto)
  qed
qed

section \<open>What the format promises\<close>

text \<open>
  A reader \<open>dec\<close> takes the first item off a byte string. The promise: whatever bytes
  follow, it finds the item the call stood for and leaves those bytes. Counts and
  string lengths fit in 32 bits, as the format's widest headers.
\<close>

definition msgpack_codec ::
  "(mp_call \<Rightarrow> byte list) \<Rightarrow> (byte list \<Rightarrow> (mp_item \<times> byte list) option) \<Rightarrow> bool" where
  "msgpack_codec enc dec \<longleftrightarrow>
     dec [] = None
   \<and> (\<forall>r. dec (enc Pack_nil @ r) = Some (INil, r))
   \<and> (\<forall>i r. dec (enc (Pack_int i) @ r) = Some (IInt (sint i), r))
   \<and> (\<forall>i r. dec (enc (Pack_long i) @ r) = Some (IInt (sint i), r))
   \<and> (\<forall>u r. dec (enc (Pack_unsigned_long u) @ r) = Some (IInt (uint u), r))
   \<and> (\<forall>u r. dec (enc (Pack_unsigned_long_long u) @ r) = Some (IInt (uint u), r))
   \<and> (\<forall>d r. dec (enc (Pack_double d) @ r) = Some (IDouble d, r))
   \<and> (\<forall>n r. unat n < 2 ^ 32 \<longrightarrow> dec (enc (Pack_map n) @ r) = Some (IMap (unat n), r))
   \<and> (\<forall>n r. unat n < 2 ^ 32 \<longrightarrow> dec (enc (Pack_array n) @ r) = Some (IArray (unat n), r))
   \<and> (\<forall>n s r. unat n = length s \<and> length s < 2 ^ 32 \<longrightarrow>
        dec (enc (Pack_str n) @ enc (Pack_str_body s n) @ r) = Some (IStr s, r))"

fun read_items :: "(byte list \<Rightarrow> (mp_item \<times> byte list) option) \<Rightarrow> nat \<Rightarrow> byte list
    \<Rightarrow> mp_item list option" where
  "read_items dec f [] = Some []"
| "read_items dec 0 (b # bs) = None"
| "read_items dec (Suc f) (b # bs) =
     (case dec (b # bs) of
        None \<Rightarrow> None
      | Some (i, r) \<Rightarrow> map_option ((#) i) (read_items dec f r))"

text \<open>A whole message: one value and nothing after it.\<close>

definition unpack :: "(byte list \<Rightarrow> (mp_item \<times> byte list) option) \<Rightarrow> byte list \<Rightarrow> mval option" where
  "unpack dec bs =
     (case read_items dec (length bs) bs of
        None \<Rightarrow> None
      | Some is \<Rightarrow>
          (case parse_vals (length is) 1 is of
             Some ([v], []) \<Rightarrow> Some v
           | _ \<Rightarrow> None))"

text \<open>The bytes of the calls \<open>cs\<close> read as the items \<open>is\<close>, each item costing a byte at least.\<close>

definition reads :: "(mp_call \<Rightarrow> byte list) \<Rightarrow> (byte list \<Rightarrow> (mp_item \<times> byte list) option)
    \<Rightarrow> mp_call list \<Rightarrow> mp_item list \<Rightarrow> bool" where
  "reads enc dec cs is \<longleftrightarrow>
     length is \<le> length (emit enc cs)
   \<and> (\<forall>f\<ge>length is. read_items dec f (emit enc cs) = Some is)"

lemma reads_Nil: "reads enc dec [] []"
  by (simp add: reads_def)

lemma reads_step:
  assumes "dec [] = None" and d: "\<And>r. dec (emit enc xs @ r) = Some (i, r)"
    and r: "reads enc dec cs is"
  shows "reads enc dec (xs @ cs) (i # is)"
proof -
  have "emit enc xs \<noteq> []"
    using assms(1) d [of "[]"] by auto
  then obtain y ys where y: "emit enc xs = y # ys" by (cases "emit enc xs") auto
  have "read_items dec f (emit enc (xs @ cs)) = Some (i # is)" if "length (i # is) \<le> f" for f
    using that d [of "emit enc cs"] r y by (cases f) (auto simp: reads_def)
  with r y show ?thesis by (auto simp: reads_def)
qed

lemma reads_call:
  assumes "dec [] = None" and "\<And>r. dec (enc c @ r) = Some (i, r)" and "reads enc dec cs is"
  shows "reads enc dec (c # cs) (i # is)"
  using reads_step [of dec enc "[c]" i cs "is"] assms by simp

lemma reads_str:
  assumes "dec [] = None" and "\<And>r. dec (enc c @ enc c' @ r) = Some (i, r)"
    and "reads enc dec cs is"
  shows "reads enc dec (c # c' # cs) (i # is)"
  using reads_step [of dec enc "[c, c']" i cs "is"] assms by simp

lemma items_reads:
  assumes c: "msgpack_codec enc dec"
  shows "items cs = Some is \<Longrightarrow> reads enc dec cs is"
  by (induction cs arbitrary: "is" rule: items.induct)
    (use c in \<open>auto simp: msgpack_codec_def reads_Nil intro: reads_call reads_str split: if_splits\<close>)

text \<open>Calls that stand for one value produce bytes that unpack to it.\<close>

lemma unpack_emit:
  assumes c: "msgpack_codec enc dec" and i: "items cs = Some (ser v)"
  shows "unpack dec (emit enc cs) = Some v"
proof -
  from items_reads [OF c i] have "read_items dec (length (emit enc cs)) (emit enc cs) = Some (ser v)"
    by (simp add: reads_def)
  moreover have "parse_vals (length (ser v)) 1 (ser v) = Some ([v], [])"
    using parse_vals_sers [of "[v]" "length (ser v)" "[]"] by simp
  ultimately show ?thesis by (simp add: unpack_def)
qed

section \<open>A reference codec\<close>

text \<open>
  The format's fixed-width encodings (\<open>nil\<close> 0xc0, \<open>int 64\<close> 0xd3, \<open>uint 64\<close> 0xcf,
  \<open>float 64\<close> 0xcb, \<open>map 32\<close> 0xdf, \<open>array 32\<close> 0xdd, \<open>str 32\<close> 0xdb). It is no model of the
  library, which picks the shortest encoding: it shows that \<open>msgpack_codec\<close> can hold and
  is what the witnesses evaluate.
\<close>

fun big_endian :: "nat \<Rightarrow> nat \<Rightarrow> byte list" where
  "big_endian 0 n = []"
| "big_endian (Suc k) n = big_endian k (n div 256) @ [of_nat (n mod 256)]"

definition from_big_endian :: "byte list \<Rightarrow> nat" where
  "from_big_endian bs = foldl (\<lambda>a b. 256 * a + unat b) 0 bs"

lemma length_big_endian [simp]: "length (big_endian k n) = k"
  by (induction k n rule: big_endian.induct) auto

lemma from_big_endian_inverse: "n < 256 ^ k \<Longrightarrow> from_big_endian (big_endian k n) = n"
proof (induction k n rule: big_endian.induct)
  case (2 k n)
  have "n div 256 < 256 ^ k"
    using 2(2) by (simp add: less_mult_imp_div_less mult.commute)
  moreover have "unat (of_nat (n mod 256) :: byte) = n mod 256"
    by (simp add: unat_of_nat)
  ultimately show ?case using 2(1) by (simp add: from_big_endian_def)
qed (simp add: from_big_endian_def)

fun ref_enc :: "mp_call \<Rightarrow> byte list" where
  "ref_enc Pack_nil = [0xc0]"
| "ref_enc (Pack_int i) = 0xd3 # big_endian 8 (unat (scast i :: 64 word))"
| "ref_enc (Pack_long i) = 0xd3 # big_endian 8 (unat i)"
| "ref_enc (Pack_unsigned_long u) = 0xcf # big_endian 8 (unat u)"
| "ref_enc (Pack_unsigned_long_long u) = 0xcf # big_endian 8 (unat u)"
| "ref_enc (Pack_double d) = 0xcb # big_endian 8 (unat d)"
| "ref_enc (Pack_map n) = 0xdf # big_endian 4 (unat n)"
| "ref_enc (Pack_array n) = 0xdd # big_endian 4 (unat n)"
| "ref_enc (Pack_str n) = 0xdb # big_endian 4 (unat n)"
| "ref_enc (Pack_str_body s n) = map (\<lambda>c. of_nat (of_char c)) (take (unat n) s)"

text \<open>A field of \<open>k\<close> bytes, as a number, and the bytes after it.\<close>

definition field :: "nat \<Rightarrow> byte list \<Rightarrow> (nat \<times> byte list) option" where
  "field k bs = (if k \<le> length bs then Some (from_big_endian (take k bs), drop k bs) else None)"

lemma field_big_endian [simp]:
  "n < 256 ^ k \<Longrightarrow> field k (big_endian k n @ r) = Some (n, r)"
  by (simp add: field_def from_big_endian_inverse)

fun ref_dec :: "byte list \<Rightarrow> (mp_item \<times> byte list) option" where
  "ref_dec [] = None"
| "ref_dec (t # bs) =
     (if t = 0xc0 then Some (INil, bs)
      else if t = 0xd3 then map_option (\<lambda>(n, r). (IInt (sint (of_nat n :: 64 word)), r)) (field 8 bs)
      else if t = 0xcf then map_option (\<lambda>(n, r). (IInt (int n), r)) (field 8 bs)
      else if t = 0xcb then map_option (\<lambda>(n, r). (IDouble (of_nat n), r)) (field 8 bs)
      else if t = 0xdf then map_option (\<lambda>(n, r). (IMap n, r)) (field 4 bs)
      else if t = 0xdd then map_option (\<lambda>(n, r). (IArray n, r)) (field 4 bs)
      else if t = 0xdb then
        (case field 4 bs of
           None \<Rightarrow> None
         | Some (n, r) \<Rightarrow>
             if n \<le> length r
             then Some (IStr (map (\<lambda>b. char_of (unat b)) (take n r)), drop n r) else None)
      else None)"

lemma unat_of_char [simp]: "char_of (unat (of_nat (of_char c) :: byte)) = c"
proof -
  have "of_char c < (256 :: nat)"
    using of_char_of [of "of_char c :: nat"] by (metis char_of_char mod_less_divisor zero_less_numeral)
  then show ?thesis by (simp add: unat_of_nat)
qed

lemma ref_codec: "msgpack_codec ref_enc ref_dec"
proof -
  have b8: "field 8 (big_endian 8 (unat w) @ r) = Some (unat w, r)" for w :: "64 word" and r
    using unsigned_less [of w, where ?'a = nat] by (intro field_big_endian) simp
  have s: "sint (scast i :: 64 word) = sint i" for i :: c_int
    using sint_ge [of i] sint_lt [of i] by (simp add: signed_scast_eq signed_take_bit_int_eq_self)
  show ?thesis
    unfolding msgpack_codec_def
    by (auto simp: b8 s comp_def)
qed

end
