(* ===== verification/Event_Packer.thy ===== *)
theory Event_Packer
  imports Rbkit_Event Msgpack_Model Time_Helper
begin

text \<open>
  \<open>ext/rbkit_event_packer.c\<close> and \<open>.h\<close>: how an event becomes a msgpack message. Each
  routine is the list of the library calls it makes, in order; \<open>pack_event\<close> clears the
  buffer, makes the calls of the event's routine and, for a collection, copies the
  aggregated messages after them.

  The second half states the protocol (\<open>docs/protocol.md\<close>) as values: \<open>event_value\<close> is the
  message frame of an event, and the packed bytes are shown to unpack to it.
\<close>

section \<open>Message fields\<close>

datatype rbkit_message_field =
    rbkit_message_field_event_type
  | rbkit_message_field_timestamp
  | rbkit_message_field_payload
  | rbkit_message_field_object_id
  | rbkit_message_field_class_name
  | rbkit_message_field_references
  | rbkit_message_field_file
  | rbkit_message_field_line
  | rbkit_message_field_size
  | rbkit_message_field_message_counter
  | rbkit_message_field_correlation_id
  | rbkit_message_field_complete_message_count
  | rbkit_message_field_method_name
  | rbkit_message_field_label
  | rbkit_message_field_singleton_method
  | rbkit_message_field_thread_id

fun field_code :: "rbkit_message_field \<Rightarrow> c_int" where
  "field_code rbkit_message_field_event_type = 0"
| "field_code rbkit_message_field_timestamp = 1"
| "field_code rbkit_message_field_payload = 2"
| "field_code rbkit_message_field_object_id = 3"
| "field_code rbkit_message_field_class_name = 4"
| "field_code rbkit_message_field_references = 5"
| "field_code rbkit_message_field_file = 6"
| "field_code rbkit_message_field_line = 7"
| "field_code rbkit_message_field_size = 8"
| "field_code rbkit_message_field_message_counter = 9"
| "field_code rbkit_message_field_correlation_id = 10"
| "field_code rbkit_message_field_complete_message_count = 11"
| "field_code rbkit_message_field_method_name = 12"
| "field_code rbkit_message_field_label = 13"
| "field_code rbkit_message_field_singleton_method = 14"
| "field_code rbkit_message_field_thread_id = 15"

definition message_fields :: "rbkit_message_field list" where
  "message_fields =
     [rbkit_message_field_event_type, rbkit_message_field_timestamp, rbkit_message_field_payload,
      rbkit_message_field_object_id, rbkit_message_field_class_name,
      rbkit_message_field_references, rbkit_message_field_file, rbkit_message_field_line,
      rbkit_message_field_size, rbkit_message_field_message_counter,
      rbkit_message_field_correlation_id, rbkit_message_field_complete_message_count,
      rbkit_message_field_method_name, rbkit_message_field_label,
      rbkit_message_field_singleton_method, rbkit_message_field_thread_id]"

text \<open>The constant \<open>Rbkit::MESSAGE_FIELDS\<close>.\<close>

definition rbkit_message_fields_as_hash :: "(string \<times> c_int) list" where
  "rbkit_message_fields_as_hash =
     [(''event_type'', field_code rbkit_message_field_event_type),
      (''timestamp'', field_code rbkit_message_field_timestamp),
      (''payload'', field_code rbkit_message_field_payload),
      (''object_id'', field_code rbkit_message_field_object_id),
      (''class_name'', field_code rbkit_message_field_class_name),
      (''references'', field_code rbkit_message_field_references),
      (''file'', field_code rbkit_message_field_file),
      (''line'', field_code rbkit_message_field_line),
      (''size'', field_code rbkit_message_field_size),
      (''message_counter'', field_code rbkit_message_field_message_counter),
      (''correlation_id'', field_code rbkit_message_field_correlation_id),
      (''complete_message_count'', field_code rbkit_message_field_complete_message_count),
      (''method_name'', field_code rbkit_message_field_method_name),
      (''label'', field_code rbkit_message_field_label),
      (''singleton_method'', field_code rbkit_message_field_singleton_method),
      (''thread_id'', field_code rbkit_message_field_thread_id)]"

definition rbkit_protocol_version :: string where
  "rbkit_protocol_version = ''2.1''"

definition MAX_OBJECT_DUMPS_IN_MESSAGE :: size_t where
  "MAX_OBJECT_DUMPS_IN_MESSAGE = 1000"

section \<open>The packing routines\<close>

text \<open>The clock a routine reads: the conversion to \<open>double\<close> and the time of day.\<close>

record clock =
  to_double :: "int \<Rightarrow> double"
  time_now :: timeval

abbreviation pack_field :: "rbkit_message_field \<Rightarrow> mp_call" where
  "pack_field f \<equiv> Pack_int (field_code f)"

definition pack_string :: "string option \<Rightarrow> mp_call list" where
  "pack_string s =
     (case s of
        None \<Rightarrow> [Pack_nil]
      | Some t \<Rightarrow> (let len = through_int (length t) in [Pack_str len, Pack_str_body t len]))"

definition pack_timestamp :: "clock \<Rightarrow> mp_call list" where
  "pack_timestamp clk = [Pack_double (get_wall_time_in_msec (to_double clk) (time_now clk))]"

definition pack_event_header :: "clock \<Rightarrow> c_int \<Rightarrow> mp_call list" where
  "pack_event_header clk t =
     [pack_field rbkit_message_field_event_type, Pack_int t,
      pack_field rbkit_message_field_timestamp] @ pack_timestamp clk"

text \<open>The static \<open>message_counter\<close>: the value before and the value after.\<close>

definition get_message_counter :: "ulong \<Rightarrow> ulong \<times> ulong" where
  "get_message_counter c = (c, c + 1)"

definition pack_obj_created_event ::
  "clock \<Rightarrow> c_int \<Rightarrow> ulong \<Rightarrow> string option \<Rightarrow> mp_call list" where
  "pack_obj_created_event clk t object_id klass =
     Pack_map 3 # pack_event_header clk t @
     [pack_field rbkit_message_field_payload, Pack_map 2,
      pack_field rbkit_message_field_object_id, Pack_unsigned_long_long object_id,
      pack_field rbkit_message_field_class_name] @ pack_string klass"

definition pack_obj_destroyed_event :: "clock \<Rightarrow> c_int \<Rightarrow> ulong \<Rightarrow> mp_call list" where
  "pack_obj_destroyed_event clk t object_id =
     Pack_map 3 # pack_event_header clk t @
     [pack_field rbkit_message_field_payload, Pack_map 1,
      pack_field rbkit_message_field_object_id, Pack_unsigned_long_long object_id]"

definition pack_event_header_only :: "clock \<Rightarrow> c_int \<Rightarrow> mp_call list" where
  "pack_event_header_only clk t = Pack_map 2 # pack_event_header clk t"

text \<open>The default case calls \<open>to_s\<close> and takes its C string, which raises on a NUL.\<close>

fun pack_value_object :: "rb_object \<Rightarrow> c_error + mp_call list" where
  "pack_value_object (T_FIXNUM n) = Inr [Pack_long n]"
| "pack_value_object (T_FLOAT d) = Inr [Pack_double d]"
| "pack_value_object (T_OBJECT s) =
     and_then (StringValueCStr (Some s)) (\<lambda>keyString. Inr (pack_string (Some keyString)))"

definition hash_pack_iterator :: "rb_object \<Rightarrow> rb_object \<Rightarrow> c_error + mp_call list" where
  "hash_pack_iterator key val =
     and_then (pack_value_object key) (\<lambda>k.
     and_then (pack_value_object val) (\<lambda>v. Inr (k @ v)))"

fun hash_foreach :: "rb_hash \<Rightarrow> c_error + mp_call list" where
  "hash_foreach [] = Inr []"
| "hash_foreach ((k, v) # h) =
     and_then (hash_pack_iterator k v) (\<lambda>c. and_then (hash_foreach h) (\<lambda>cs. Inr (c @ cs)))"

definition pack_hash_event :: "clock \<Rightarrow> c_int \<Rightarrow> rb_hash \<Rightarrow> c_error + mp_call list" where
  "pack_hash_event clk t hash =
     and_then (hash_foreach hash) (\<lambda>entries.
       Inr (Pack_map 3 # pack_event_header clk t @
            [pack_field rbkit_message_field_payload, Pack_map (through_int (length hash))] @ entries))"

subsection \<open>The heap dump\<close>

text \<open>The characters behind a path pointer of the string table.\<close>

definition c_string_at :: "str_table \<Rightarrow> ptr option \<Rightarrow> c_error + string option" where
  "c_string_at tbl p =
     (case p of
        None \<Rightarrow> Inr None
      | Some q \<Rightarrow> (case heap tbl q of None \<Rightarrow> Inl Use_after_free | Some s \<Rightarrow> Inr (Some s)))"

text \<open>The loop over the reference array, when there are references.\<close>

definition pack_references :: "rbkit_object_data \<Rightarrow> c_error + mp_call list" where
  "pack_references d =
     (if od_reference_count d = 0 then Inr []
      else case od_references d of
             None \<Rightarrow> Inl Null_dereference
           | Some rs \<Rightarrow>
               if length rs < unat (od_reference_count d) then Inl Out_of_bounds
               else Inr (map Pack_unsigned_long_long (take (unat (od_reference_count d)) rs)))"

definition nil_or_ulong :: "ulong \<Rightarrow> mp_call" where
  "nil_or_ulong n = (if n = 0 then Pack_nil else Pack_unsigned_long n)"

definition pack_object_data :: "str_table \<Rightarrow> rbkit_object_data \<Rightarrow> c_error + mp_call list" where
  "pack_object_data tbl d =
     and_then (pack_references d) (\<lambda>refs.
     and_then (c_string_at tbl (od_file d)) (\<lambda>file.
       Inr (Pack_map 6 #
            [pack_field rbkit_message_field_object_id, Pack_unsigned_long_long (od_object_id d),
             pack_field rbkit_message_field_class_name] @ pack_string (od_class_name d) @
            [pack_field rbkit_message_field_references, Pack_array (od_reference_count d)] @ refs @
            [pack_field rbkit_message_field_file] @ pack_string file @
            [pack_field rbkit_message_field_line, nil_or_ulong (od_line d),
             pack_field rbkit_message_field_size, nil_or_ulong (od_size d)])))"

fun pack_objects :: "str_table \<Rightarrow> nat \<Rightarrow> rbkit_object_space_dump_event
    \<Rightarrow> c_error + mp_call list \<times> rbkit_object_space_dump_event" where
  "pack_objects tbl 0 ev = Inr ([], ev)"
| "pack_objects tbl (Suc n) ev =
     and_then (next_object ev) (\<lambda>(data, ev).
     and_then (pack_object_data tbl data) (\<lambda>calls.
     and_then (pack_objects tbl n ev) (\<lambda>(rest, ev). Inr (calls @ rest, ev))))"

definition pack_object_space_dump_event :: "clock \<Rightarrow> str_table \<Rightarrow> c_int
    \<Rightarrow> rbkit_object_space_dump_event \<Rightarrow> c_error + mp_call list \<times> rbkit_object_space_dump_event" where
  "pack_object_space_dump_event clk tbl t ev =
     (let objects_left = ev_object_count ev - ev_packed_objects ev;
          objects_in_batch = (if objects_left < MAX_OBJECT_DUMPS_IN_MESSAGE then objects_left
                              else MAX_OBJECT_DUMPS_IN_MESSAGE);
          head = Pack_map 5 # pack_event_header clk t @
            [pack_field rbkit_message_field_correlation_id, Pack_int (ev_correlation_id ev),
             pack_field rbkit_message_field_complete_message_count,
             Pack_unsigned_long (ev_object_count ev),
             pack_field rbkit_message_field_payload, Pack_array objects_in_batch]
      in and_then (pack_objects tbl (unat objects_in_batch) ev) (\<lambda>(calls, ev).
         Inr (head @ calls, ev)))"

subsection \<open>CPU samples, collections and the dispatch\<close>

definition pack_frame :: "rbkit_frame_data \<Rightarrow> mp_call list" where
  "pack_frame f =
     Pack_map 6 #
     [pack_field rbkit_message_field_method_name] @ pack_string (fr_method_name f) @
     [pack_field rbkit_message_field_label] @ pack_string (fr_label f) @
     [pack_field rbkit_message_field_file] @ pack_string (fr_file f) @
     [pack_field rbkit_message_field_line, Pack_unsigned_long (fr_line f),
      pack_field rbkit_message_field_singleton_method,
      Pack_int (if fr_is_singleton_method f then 1 else 0),
      pack_field rbkit_message_field_thread_id, Pack_unsigned_long (fr_thread_id f)]"

definition pack_cpu_sample_event ::
  "clock \<Rightarrow> c_int \<Rightarrow> rbkit_cpu_sample \<Rightarrow> c_error + mp_call list" where
  "pack_cpu_sample_event clk t sample =
     (if length (sample_frames sample) < unat (sample_frame_count sample) then Inl Out_of_bounds
      else Inr (Pack_map 3 # pack_event_header clk t @
        [pack_field rbkit_message_field_payload, Pack_array (sample_frame_count sample)] @
        concat (map pack_frame (take (unat (sample_frame_count sample)) (sample_frames sample)))))"

text \<open>The calls of a collection; the aggregated bytes follow them.\<close>

definition pack_event_collection_calls :: "clock \<Rightarrow> c_int \<Rightarrow> ulong \<Rightarrow> size_t \<Rightarrow> mp_call list" where
  "pack_event_collection_calls clk t counter message_count =
     Pack_map 4 # pack_event_header clk t @
     [pack_field rbkit_message_field_message_counter, Pack_unsigned_long counter,
      pack_field rbkit_message_field_payload, Pack_array message_count]"

definition pack_event_collection_event :: "(mp_call \<Rightarrow> byte list) \<Rightarrow> clock \<Rightarrow> ulong \<Rightarrow> c_int
    \<Rightarrow> block option \<Rightarrow> size_t \<Rightarrow> size_t \<Rightarrow> c_error + sbuffer \<times> ulong" where
  "pack_event_collection_event enc clk message_counter t buffer buffer_size message_count =
     (let (n, message_counter) = get_message_counter message_counter;
          head = emit enc (pack_event_collection_calls clk t n message_count)
      in case buffer of
           None \<Rightarrow> Inl Use_after_free
         | Some b \<Rightarrow>
             and_then (read_block b (unat buffer_size)) (\<lambda>bytes.
             Inr (head @ bytes, message_counter)))"

text \<open>
  The result is the buffer's new content, the event (a dump has made progress) and the
  message counter. The cast to the struct of the event type is only right when the event
  is that struct; reading the header alone is right for all of them.
\<close>

definition pack_event :: "(mp_call \<Rightarrow> byte list) \<Rightarrow> clock \<Rightarrow> str_table \<Rightarrow> ulong \<Rightarrow> rbkit_event
    \<Rightarrow> c_error + sbuffer \<times> rbkit_event \<times> ulong" where
  "pack_event enc clk tbl counter ev =
     (let t = event_type ev; done = (\<lambda>calls. Inr (emit enc calls, ev, counter))
      in case event_type_of t of
           Some obj_created \<Rightarrow>
             (case ev of
                Obj_created_event _ object_id klass _ \<Rightarrow>
                  done (pack_obj_created_event clk t object_id klass)
              | _ \<Rightarrow> Inl Bad_cast)
         | Some obj_destroyed \<Rightarrow>
             (case ev of
                Obj_destroyed_event _ object_id \<Rightarrow> done (pack_obj_destroyed_event clk t object_id)
              | _ \<Rightarrow> Inl Bad_cast)
         | Some gc_start \<Rightarrow> done (pack_event_header_only clk t)
         | Some gc_end_m \<Rightarrow> done (pack_event_header_only clk t)
         | Some gc_end_s \<Rightarrow> done (pack_event_header_only clk t)
         | Some object_space_dump \<Rightarrow>
             (case ev of
                Object_space_dump_event _ d \<Rightarrow>
                  and_then (pack_object_space_dump_event clk tbl t d) (\<lambda>(calls, d).
                    Inr (emit enc calls, Object_space_dump_event t d, counter))
              | _ \<Rightarrow> Inl Bad_cast)
         | Some gc_stats \<Rightarrow>
             (case ev of
                Hash_event _ h \<Rightarrow> and_then (pack_hash_event clk t h) done
              | _ \<Rightarrow> Inl Bad_cast)
         | Some handshake \<Rightarrow>
             (case ev of
                Hash_event _ h \<Rightarrow> and_then (pack_hash_event clk t h) done
              | _ \<Rightarrow> Inl Bad_cast)
         | Some cpu_sample \<Rightarrow>
             (case ev of
                Cpu_sample_event _ s \<Rightarrow> and_then (pack_cpu_sample_event clk t s) done
              | _ \<Rightarrow> Inl Bad_cast)
         | Some event_collection \<Rightarrow>
             (case ev of
                Event_collection_event _ b sz n \<Rightarrow>
                  and_then (pack_event_collection_event enc clk counter t b sz n)
                    (\<lambda>(bytes, counter). Inr (bytes, ev, counter))
              | _ \<Rightarrow> Inl Bad_cast)
         | None \<Rightarrow> Inl (NotImplementedError (unat t)))"

section \<open>The protocol\<close>

text \<open>
  The message frames as values. Keys are the integers of the fields.
\<close>

definition field_key :: "rbkit_message_field \<Rightarrow> mval" where
  "field_key f = VInt (sint (field_code f))"

definition string_value :: "string option \<Rightarrow> mval" where
  "string_value s = (case s of None \<Rightarrow> VNil | Some t \<Rightarrow> VStr t)"

definition frame_value :: "clock \<Rightarrow> c_int \<Rightarrow> (rbkit_message_field \<times> mval) list \<Rightarrow> mval" where
  "frame_value clk t body =
     VMap ((field_key rbkit_message_field_event_type, VInt (sint t)) #
           (field_key rbkit_message_field_timestamp,
            VDouble (get_wall_time_in_msec (to_double clk) (time_now clk))) #
           map (\<lambda>(f, v). (field_key f, v)) body)"

definition record_value :: "(rbkit_message_field \<times> mval) list \<Rightarrow> mval" where
  "record_value body = VMap (map (\<lambda>(f, v). (field_key f, v)) body)"

fun object_value :: "rb_object \<Rightarrow> mval" where
  "object_value (T_FIXNUM n) = VInt (sint n)"
| "object_value (T_FLOAT d) = VDouble d"
| "object_value (T_OBJECT s) = VStr s"

definition hash_value :: "rb_hash \<Rightarrow> mval" where
  "hash_value h = VMap (map (\<lambda>(k, v). (object_value k, object_value v)) h)"

definition ulong_or_nil :: "ulong \<Rightarrow> mval" where
  "ulong_or_nil n = (if n = 0 then VNil else VInt (uint n))"

definition references_of :: "rbkit_object_data \<Rightarrow> ulong list" where
  "references_of d = (case od_references d of None \<Rightarrow> [] | Some rs \<Rightarrow> rs)"

definition object_data_value :: "str_table \<Rightarrow> rbkit_object_data \<Rightarrow> mval" where
  "object_data_value tbl d = record_value
     [(rbkit_message_field_object_id, VInt (uint (od_object_id d))),
      (rbkit_message_field_class_name, string_value (od_class_name d)),
      (rbkit_message_field_references, VArray (map (\<lambda>r. VInt (uint r)) (references_of d))),
      (rbkit_message_field_file, string_value (resolve tbl (od_file d))),
      (rbkit_message_field_line, ulong_or_nil (od_line d)),
      (rbkit_message_field_size, ulong_or_nil (od_size d))]"

definition frame_data_value :: "rbkit_frame_data \<Rightarrow> mval" where
  "frame_data_value f = record_value
     [(rbkit_message_field_method_name, string_value (fr_method_name f)),
      (rbkit_message_field_label, string_value (fr_label f)),
      (rbkit_message_field_file, string_value (fr_file f)),
      (rbkit_message_field_line, VInt (uint (fr_line f))),
      (rbkit_message_field_singleton_method, VInt (if fr_is_singleton_method f then 1 else 0)),
      (rbkit_message_field_thread_id, VInt (uint (fr_thread_id f)))]"

text \<open>
  A message of a dump as the code sends it. \<open>docs/protocol.md\<close> does not list the field
  \<open>complete_message_count\<close> in this frame, and its value is the number of objects in the
  whole dump, not, as its name and a comment in \<open>pack_object_space_dump_event\<close> say, of messages.
\<close>

definition dump_message_value :: "clock \<Rightarrow> str_table \<Rightarrow> c_int \<Rightarrow> ulong \<Rightarrow> rbkit_object_data list \<Rightarrow> mval" where
  "dump_message_value clk tbl correlation_id object_count ds =
     frame_value clk (event_code object_space_dump)
       [(rbkit_message_field_correlation_id, VInt (sint correlation_id)),
        (rbkit_message_field_complete_message_count, VInt (uint object_count)),
        (rbkit_message_field_payload, VArray (map (object_data_value tbl) ds))]"

definition collection_value :: "clock \<Rightarrow> ulong \<Rightarrow> mval list \<Rightarrow> mval" where
  "collection_value clk counter messages =
     frame_value clk (event_code event_collection)
       [(rbkit_message_field_message_counter, VInt (uint counter)),
        (rbkit_message_field_payload, VArray messages)]"

text \<open>The frame of each event other than a collection.\<close>

fun event_value :: "clock \<Rightarrow> str_table \<Rightarrow> rbkit_event \<Rightarrow> mval" where
  "event_value clk tbl (Event_header t) = frame_value clk t []"
| "event_value clk tbl (Obj_created_event t object_id klass info) =
     frame_value clk t [(rbkit_message_field_payload, record_value
       [(rbkit_message_field_object_id, VInt (uint object_id)),
        (rbkit_message_field_class_name, string_value klass)])]"
| "event_value clk tbl (Obj_destroyed_event t object_id) =
     frame_value clk t [(rbkit_message_field_payload, record_value
       [(rbkit_message_field_object_id, VInt (uint object_id))])]"
| "event_value clk tbl (Hash_event t h) =
     frame_value clk t [(rbkit_message_field_payload, hash_value h)]"
| "event_value clk tbl (Object_space_dump_event t d) =
     dump_message_value clk tbl (ev_correlation_id d) (ev_object_count d) (take 1000 (dump_rest d))"
| "event_value clk tbl (Cpu_sample_event t s) =
     frame_value clk t [(rbkit_message_field_payload, VArray (map frame_data_value (sample_frames s)))]"
| "event_value clk tbl (Event_collection_event t b sz n) = VNil"

text \<open>
  The frames \<open>docs/protocol.md\<close> lays down. They are the ones above, but for a message of a
  dump: there the document has the correlation id and the payload only.
\<close>

definition protocol_frame :: "clock \<Rightarrow> str_table \<Rightarrow> rbkit_event \<Rightarrow> mval" where
  "protocol_frame clk tbl ev =
     (case ev of
        Object_space_dump_event t d \<Rightarrow>
          frame_value clk (event_code object_space_dump)
            [(rbkit_message_field_correlation_id, VInt (sint (ev_correlation_id d))),
             (rbkit_message_field_payload, VArray (map (object_data_value tbl) (take 1000 (dump_rest d))))]
      | _ \<Rightarrow> event_value clk tbl ev)"

fun drop_field :: "rbkit_message_field \<Rightarrow> mval \<Rightarrow> mval" where
  "drop_field f (VMap kvs) = VMap (filter (\<lambda>(k, v). k \<noteq> field_key f) kvs)"
| "drop_field f v = v"

text \<open>
  Events as the server builds them: the type is the one of the struct, strings are
  shorter than 2 GB (their length goes through an \<open>int\<close>), and no string of a hash has a
  NUL inside.
\<close>

definition short :: "string option \<Rightarrow> bool" where
  "short s \<longleftrightarrow> (case s of None \<Rightarrow> True | Some t \<Rightarrow> length t < 2 ^ 31)"

fun object_ok :: "rb_object \<Rightarrow> bool" where
  "object_ok (T_OBJECT s) \<longleftrightarrow> length s < 2 ^ 31 \<and> CHR 0x00 \<notin> set s"
| "object_ok _ \<longleftrightarrow> True"

definition object_data_ok :: "str_table \<Rightarrow> rbkit_object_data \<Rightarrow> bool" where
  "object_data_ok tbl d \<longleftrightarrow>
     short (od_class_name d) \<and> short (resolve tbl (od_file d))
   \<and> (\<forall>p. od_file d = Some p \<longrightarrow> heap tbl p \<noteq> None)
   \<and> unat (od_reference_count d) = length (references_of d)
   \<and> length (references_of d) < 2 ^ 32"

definition frame_data_ok :: "rbkit_frame_data \<Rightarrow> bool" where
  "frame_data_ok f \<longleftrightarrow> short (fr_method_name f) \<and> short (fr_label f) \<and> short (fr_file f)"

fun event_ok :: "str_table \<Rightarrow> rbkit_event \<Rightarrow> bool" where
  "event_ok tbl (Event_header t) \<longleftrightarrow>
     t \<in> {event_code gc_start, event_code gc_end_m, event_code gc_end_s}"
| "event_ok tbl (Obj_created_event t object_id klass info) \<longleftrightarrow>
     t = event_code obj_created \<and> short klass"
| "event_ok tbl (Obj_destroyed_event t object_id) \<longleftrightarrow> t = event_code obj_destroyed"
| "event_ok tbl (Hash_event t h) \<longleftrightarrow>
     t \<in> {event_code gc_stats, event_code handshake} \<and> length h < 2 ^ 31
   \<and> list_all (\<lambda>(k, v). object_ok k \<and> object_ok v) h"
| "event_ok tbl (Object_space_dump_event t d) \<longleftrightarrow>
     t = event_code object_space_dump \<and> dump_cursor_ok d \<and> list_all (object_data_ok tbl) (dump_rest d)"
| "event_ok tbl (Cpu_sample_event t s) \<longleftrightarrow>
     t = event_code cpu_sample \<and> unat (sample_frame_count s) = length (sample_frames s)
   \<and> length (sample_frames s) < 2 ^ 32 \<and> list_all frame_data_ok (sample_frames s)"
| "event_ok tbl (Event_collection_event t b sz n) \<longleftrightarrow> False"

section \<open>Calls that spell out values\<close>

text \<open>
  \<open>packs cs vs\<close>: the calls stand for the values \<open>vs\<close>, one after the other. Each rule takes
  one value off the front, so that \<open>simp\<close> reads a routine against its frame.
\<close>

definition packs :: "mp_call list \<Rightarrow> mval list \<Rightarrow> bool" where
  "packs cs vs \<longleftrightarrow> items cs = Some (sers vs)"

named_theorems packs_rules \<open>reading calls against values\<close>

lemma packs_simps [packs_rules]:
  "packs [] []"
  "packs (Pack_nil # cs) (VNil # vs) \<longleftrightarrow> packs cs vs"
  "packs (Pack_int i # cs) (VInt k # vs) \<longleftrightarrow> sint i = k \<and> packs cs vs"
  "packs (Pack_long n # cs) (VInt k # vs) \<longleftrightarrow> sint n = k \<and> packs cs vs"
  "packs (Pack_unsigned_long u # cs) (VInt k # vs) \<longleftrightarrow> uint u = k \<and> packs cs vs"
  "packs (Pack_unsigned_long_long u # cs) (VInt k # vs) \<longleftrightarrow> uint u = k \<and> packs cs vs"
  "packs (Pack_double d # cs) (VDouble e # vs) \<longleftrightarrow> d = e \<and> packs cs vs"
  "packs (Pack_map n # cs) (VMap kvs # vs) \<longleftrightarrow>
     unat n = length kvs \<and> length kvs < 2 ^ 32 \<and> packs cs (unpairs kvs @ vs)"
  "packs (Pack_array n # cs) (VArray ws # vs) \<longleftrightarrow>
     unat n = length ws \<and> length ws < 2 ^ 32 \<and> packs cs (ws @ vs)"
  by (auto simp: packs_def)

lemma packs_string [packs_rules]:
  "short s \<Longrightarrow> packs (pack_string s @ cs) (string_value s # vs) \<longleftrightarrow> packs cs vs"
  by (cases s) (auto simp: packs_def pack_string_def string_value_def short_def Let_def through_int_small)

lemma packs_string_end [packs_rules]:
  "short s \<Longrightarrow> packs (pack_string s) [string_value s]"
  using packs_string [of s "[]" "[]"] by (simp add: packs_def)

lemma packs_concat:
  "(\<And>x cs vs. x \<in> set xs \<Longrightarrow> packs (f x @ cs) (g x @ vs) \<longleftrightarrow> packs cs vs) \<Longrightarrow>
     packs (concat (map f xs)) (concat (map g xs))"
proof (induction xs)
  case (Cons x xs)
  then show ?case by simp
qed (simp add: packs_def)

lemma packs_items: "packs cs [v] \<Longrightarrow> items cs = Some (ser v)"
  by (simp add: packs_def)

lemma unpairs_map:
  "unpairs (map (\<lambda>(k, v). (f k, g v)) kvs) = concat (map (\<lambda>(k, v). [f k, g v]) kvs)"
  by (induction kvs) auto

lemmas frame_simps = frame_value_def record_value_def field_key_def pack_event_header_def
  pack_timestamp_def


section \<open>Every routine spells out its frame\<close>

lemma packs_header_only: "packs (pack_event_header_only clk t) [frame_value clk t []]"
  by (simp add: pack_event_header_only_def frame_simps packs_rules)

lemma packs_obj_created:
  "short klass \<Longrightarrow>
     packs (pack_obj_created_event clk t object_id klass) [event_value clk tbl (Obj_created_event t object_id klass info)]"
  by (simp add: pack_obj_created_event_def frame_simps packs_rules)

lemma packs_obj_destroyed:
  "packs (pack_obj_destroyed_event clk t object_id) [event_value clk tbl (Obj_destroyed_event t object_id)]"
  by (simp add: pack_obj_destroyed_event_def frame_simps packs_rules)

lemma pack_value_object_ok:
  "object_ok v \<Longrightarrow> \<exists>calls. pack_value_object v = Inr calls
     \<and> (\<forall>cs vs. packs (calls @ cs) (object_value v # vs) \<longleftrightarrow> packs cs vs)"
proof (cases v)
  case (T_OBJECT s)
  assume "object_ok v"
  with T_OBJECT have "short (Some s)" "StringValueCStr (Some s) = Inr s"
    by (simp_all add: short_def StringValueCStr_def)
  with packs_string [of "Some s"] T_OBJECT show ?thesis by (simp add: string_value_def)
qed (simp_all add: packs_rules)

lemma hash_foreach_ok:
  "list_all (\<lambda>(k, v). object_ok k \<and> object_ok v) h \<Longrightarrow> \<exists>calls. hash_foreach h = Inr calls
     \<and> packs calls (unpairs (map (\<lambda>(k, v). (object_value k, object_value v)) h))"
proof (induction h rule: hash_foreach.induct)
  case 1
  then show ?case by (simp add: packs_rules)
next
  case (2 k v h)
  then obtain rest where rest: "hash_foreach h = Inr rest"
    "packs rest (unpairs (map (\<lambda>(k, v). (object_value k, object_value v)) h))" by auto
  from 2 pack_value_object_ok [of k] obtain ck where ck: "pack_value_object k = Inr ck"
    "\<And>cs vs. packs (ck @ cs) (object_value k # vs) \<longleftrightarrow> packs cs vs" by auto
  from 2 pack_value_object_ok [of v] obtain cv where cv: "pack_value_object v = Inr cv"
    "\<And>cs vs. packs (cv @ cs) (object_value v # vs) \<longleftrightarrow> packs cs vs" by auto
  from rest ck cv show ?case by (simp add: hash_pack_iterator_def)
qed

lemma packs_hash:
  assumes "length h < 2 ^ 31" "list_all (\<lambda>(k, v). object_ok k \<and> object_ok v) h"
  shows "\<exists>calls. pack_hash_event clk t h = Inr calls \<and> packs calls [event_value clk tbl (Hash_event t h)]"
proof -
  from hash_foreach_ok [OF assms(2)] obtain entries where e: "hash_foreach h = Inr entries"
    "packs entries (unpairs (map (\<lambda>(k, v). (object_value k, object_value v)) h))" by blast
  with assms(1) show ?thesis
    by (simp add: pack_hash_event_def frame_simps hash_value_def packs_rules through_int_small)
qed

lemma packs_frames:
  "list_all frame_data_ok fs \<Longrightarrow> packs (concat (map pack_frame fs)) (map frame_data_value fs)"
  by (induction fs) (simp_all add: pack_frame_def frame_data_value_def frame_data_ok_def frame_simps packs_rules)

lemma packs_cpu_sample:
  assumes "event_ok tbl (Cpu_sample_event t s)"
  shows "\<exists>calls. pack_cpu_sample_event clk t s = Inr calls
    \<and> packs calls [event_value clk tbl (Cpu_sample_event t s)]"
  using assms packs_frames [of "sample_frames s"]
  by (simp add: pack_cpu_sample_event_def frame_simps packs_rules)

text \<open>One record of the dump.\<close>

definition object_data_calls :: "str_table \<Rightarrow> rbkit_object_data \<Rightarrow> mp_call list" where
  "object_data_calls tbl d = (case pack_object_data tbl d of Inl e \<Rightarrow> [] | Inr calls \<Rightarrow> calls)"

lemma pack_references_ok:
  "object_data_ok tbl d \<Longrightarrow> pack_references d = Inr (map Pack_unsigned_long_long (references_of d))"
  by (auto simp: pack_references_def object_data_ok_def references_of_def unat_eq_0 split: option.splits)

lemma packs_ulongs:
  "packs (map Pack_unsigned_long_long rs @ cs) (map (\<lambda>r. VInt (uint r)) rs @ vs) \<longleftrightarrow> packs cs vs"
  by (induction rs) (simp_all add: packs_rules)

lemma packs_nil_or_ulong:
  "packs (nil_or_ulong n # cs) (ulong_or_nil n # vs) \<longleftrightarrow> packs cs vs"
  by (simp add: nil_or_ulong_def ulong_or_nil_def packs_rules)

lemma packs_object_data:
  assumes ok: "object_data_ok tbl d"
  shows "pack_object_data tbl d = Inr (object_data_calls tbl d)
    \<and> (packs (object_data_calls tbl d @ cs) (object_data_value tbl d # vs) \<longleftrightarrow> packs cs vs)"
proof -
  have "c_string_at tbl (od_file d) = Inr (resolve tbl (od_file d))"
    using ok by (auto simp: c_string_at_def resolve_def object_data_ok_def split: option.splits)
  with pack_references_ok [OF ok] ok show ?thesis
    by (simp add: object_data_calls_def pack_object_data_def object_data_value_def frame_simps
      object_data_ok_def packs_rules packs_ulongs packs_nil_or_ulong)
qed

lemma packs_objects:
  "list_all (object_data_ok tbl) ds \<Longrightarrow>
     packs (concat (map (object_data_calls tbl) ds)) (map (object_data_value tbl) ds)"
  by (induction ds) (simp_all add: packs_rules packs_object_data)

text \<open>One message of a dump: the next (at most) thousand records, the cursor past them.\<close>

lemma dump_batch_size:
  assumes "dump_cursor_ok d"
  shows "unat (if ev_object_count d - ev_packed_objects d < MAX_OBJECT_DUMPS_IN_MESSAGE
     then ev_object_count d - ev_packed_objects d else MAX_OBJECT_DUMPS_IN_MESSAGE)
   = length (take 1000 (dump_rest d))"
proof -
  have "unat (ev_object_count d - ev_packed_objects d) = length (dump_rest d)"
    using assms by (auto simp: dump_cursor_ok_def unat_sub word_le_nat_alt)
  then show ?thesis
    by (simp add: MAX_OBJECT_DUMPS_IN_MESSAGE_def word_less_nat_alt)
qed

lemma next_object_frame:
  "next_object ev = Inr (x, ev') \<Longrightarrow>
     ev_object_count ev' = ev_object_count ev \<and> ev_correlation_id ev' = ev_correlation_id ev"
  by (auto simp: next_object_def and_then_eq_Inr Let_def split: if_splits list.splits)

lemma pack_objects_frame:
  "pack_objects tbl n ev = Inr (calls, ev') \<Longrightarrow>
     ev_object_count ev' = ev_object_count ev \<and> ev_correlation_id ev' = ev_correlation_id ev"
  by (induction n arbitrary: ev calls ev')
    (fastforce simp: and_then_eq_Inr dest: next_object_frame)+

definition batch_calls ::
  "clock \<Rightarrow> str_table \<Rightarrow> c_int \<Rightarrow> ulong \<Rightarrow> rbkit_object_data list \<Rightarrow> mp_call list" where
  "batch_calls clk tbl correlation object_count ds =
     Pack_map 5 # pack_event_header clk (event_code object_space_dump) @
     [pack_field rbkit_message_field_correlation_id, Pack_int correlation,
      pack_field rbkit_message_field_complete_message_count, Pack_unsigned_long object_count,
      pack_field rbkit_message_field_payload, Pack_array (of_nat (length ds))] @
     concat (map (object_data_calls tbl) ds)"

lemma packs_batch:
  assumes "list_all (object_data_ok tbl) ds" and "length ds \<le> 1000"
  shows "packs (batch_calls clk tbl correlation object_count ds)
    [dump_message_value clk tbl correlation object_count ds]"
  using packs_objects [OF assms(1)] assms(2)
  by (simp add: batch_calls_def dump_message_value_def frame_simps packs_rules unat_of_nat)

lemma packs_dump:
  assumes ok: "dump_cursor_ok d" and recs: "list_all (object_data_ok tbl) (dump_rest d)"
  shows "\<exists>calls d'. pack_object_space_dump_event clk tbl (event_code object_space_dump) d = Inr (calls, d')
    \<and> calls = batch_calls clk tbl (ev_correlation_id d) (ev_object_count d) (take 1000 (dump_rest d))
    \<and> packs calls [event_value clk tbl (Object_space_dump_event (event_code object_space_dump) d)]
    \<and> dump_cursor_ok d' \<and> dump_rest d' = drop 1000 (dump_rest d)
    \<and> ev_object_count d' = ev_object_count d \<and> ev_correlation_id d' = ev_correlation_id d"
proof -
  let ?ds = "take 1000 (dump_rest d)"
  let ?n = "length ?ds"
  have handle: "\<And>x. x \<in> set (dump_rest d) \<Longrightarrow> pack_object_data tbl x = Inr (object_data_calls tbl x)"
    using recs packs_object_data by (auto simp: list_all_iff)
  have "\<exists>d'. pack_objects tbl ?n d = Inr (concat (map (object_data_calls tbl) (take ?n (dump_rest d))), d')
      \<and> dump_cursor_ok d' \<and> dump_rest d' = drop ?n (dump_rest d)"
    using ok handle
    by (intro dump_reader.loop_reads [where handle = "pack_object_data tbl"]) auto
  moreover have "take ?n (dump_rest d) = ?ds" "drop ?n (dump_rest d) = drop 1000 (dump_rest d)"
    by (auto simp: min_def)
  ultimately obtain d' where
    d': "pack_objects tbl ?n d = Inr (concat (map (object_data_calls tbl) ?ds), d')"
      "dump_cursor_ok d'" "dump_rest d' = drop 1000 (dump_rest d)"
    by auto
  have "list_all (object_data_ok tbl) ?ds"
    using recs by (auto simp: list_all_iff dest: in_set_takeD)
  from packs_batch [OF this] have p: "packs (batch_calls clk tbl c n ?ds) [dump_message_value clk tbl c n ?ds]" for c n
    by simp
  have "(if ev_object_count d - ev_packed_objects d < MAX_OBJECT_DUMPS_IN_MESSAGE
     then ev_object_count d - ev_packed_objects d else MAX_OBJECT_DUMPS_IN_MESSAGE) = of_nat ?n"
    unfolding dump_batch_size [OF ok, symmetric] by simp
  then show ?thesis
    using d' pack_objects_frame [OF d'(1)] p dump_batch_size [OF ok]
    by (simp add: pack_object_space_dump_event_def Let_def batch_calls_def)
qed

section \<open>Packing an event\<close>

text \<open>What packing leaves of the event: a dump has moved past the batch, nothing else changes.\<close>

fun event_after :: "rbkit_event \<Rightarrow> rbkit_event \<Rightarrow> bool" where
  "event_after (Object_space_dump_event t d) ev' \<longleftrightarrow>
     (\<exists>d'. ev' = Object_space_dump_event t d' \<and> dump_cursor_ok d'
        \<and> dump_rest d' = drop 1000 (dump_rest d)
        \<and> ev_object_count d' = ev_object_count d \<and> ev_correlation_id d' = ev_correlation_id d)"
| "event_after ev ev' \<longleftrightarrow> ev' = ev"

lemma pack_event_calls:
  assumes ok: "event_ok tbl ev"
  shows "\<exists>calls ev'. (\<forall>enc counter. pack_event enc clk tbl counter ev = Inr (emit enc calls, ev', counter))
    \<and> packs calls [event_value clk tbl ev] \<and> event_after ev ev'"
proof (cases ev)
  case (Event_header t)
  with ok show ?thesis
    using packs_header_only [of clk t] by (auto simp: pack_event_def Let_def)
next
  case (Obj_created_event t object_id klass info)
  with ok packs_obj_created [of klass clk t object_id tbl info] show ?thesis
    by (simp add: pack_event_def Let_def) blast
next
  case (Obj_destroyed_event t object_id)
  with ok packs_obj_destroyed [of clk t object_id tbl] show ?thesis
    by (simp add: pack_event_def Let_def) blast
next
  case (Hash_event t h)
  with ok packs_hash [of h clk t tbl] obtain calls where
    "pack_hash_event clk t h = Inr calls" "packs calls [event_value clk tbl (Hash_event t h)]" by auto
  with ok Hash_event show ?thesis
    by (auto simp: pack_event_def Let_def simp del: event_value.simps)
next
  case (Object_space_dump_event t d)
  with ok packs_dump [of d tbl clk] obtain calls d' where
    "pack_object_space_dump_event clk tbl t d = Inr (calls, d')"
    "packs calls [event_value clk tbl (Object_space_dump_event t d)]"
    "event_after ev (Object_space_dump_event t d')" by auto
  with ok Object_space_dump_event show ?thesis
    by (auto simp: pack_event_def Let_def simp del: event_value.simps)
next
  case (Cpu_sample_event t s)
  with ok packs_cpu_sample [of tbl t s clk] obtain calls where
    "pack_cpu_sample_event clk t s = Inr calls" "packs calls [event_value clk tbl (Cpu_sample_event t s)]"
    by auto
  with ok Cpu_sample_event show ?thesis
    by (auto simp: pack_event_def Let_def simp del: event_value.simps)
next
  case (Event_collection_event t b sz n)
  with ok show ?thesis by simp
qed

text \<open>
  A collection: the aggregated bytes are the calls of earlier messages, and the frame's
  array has as many elements as were counted.
\<close>

lemma pack_collection_calls:
  assumes b: "holds_bytes b (emit enc cs)" and sz: "unat sz = length (emit enc cs)"
    and cs: "packs cs vs" and n: "unat n = length vs" "length vs < 2 ^ 32"
  shows "\<exists>calls. pack_event enc clk tbl counter (new_rbkit_event_collection_event (Some b) sz n)
      = Inr (emit enc calls, new_rbkit_event_collection_event (Some b) sz n, counter + 1)
    \<and> packs calls [collection_value clk counter vs]"
proof -
  let ?head = "pack_event_collection_calls clk (event_code event_collection) counter n"
  have "packs (?head @ cs) [collection_value clk counter vs]"
    using cs n by (simp add: pack_event_collection_calls_def collection_value_def frame_simps packs_rules)
  moreover have "read_block b (unat sz) = Inr (emit enc cs)"
    using holds_bytes_read [OF b] sz by simp
  ultimately show ?thesis
    by (intro exI [of _ "?head @ cs"]) (simp add: pack_event_def Let_def pack_event_collection_event_def
      new_rbkit_event_collection_event_def get_message_counter_def)
qed

lemma unpack_packs:
  "msgpack_codec enc dec \<Longrightarrow> packs calls [v] \<Longrightarrow> unpack dec (emit enc calls) = Some v"
  by (rule unpack_emit) (simp_all add: packs_items)

lemma drop_count:
  "event_ok tbl ev \<Longrightarrow>
     drop_field rbkit_message_field_complete_message_count (event_value clk tbl ev) = protocol_frame clk tbl ev"
  by (cases ev) (simp_all add: protocol_frame_def dump_message_value_def frame_value_def field_key_def)

text \<open>
  Claim C6. With any encoder and decoder that keep the msgpack format's promise, every
  event the server builds is packed without an error into bytes that decode to its frame.
  For an allocation, a deallocation, a garbage collection phase, a hash, a CPU sample and
  a batch of a heap dump the frame is the one of the protocol document, except that a
  batch has one more field, \<open>complete_message_count\<close>, which the document leaves out there;
  the message counter is left alone, and packing a dump moves its cursor by the batch and
  changes nothing else. For a collection over a block that holds the bytes of earlier
  messages the frame has exactly those messages as its payload and the next counter.
\<close>

theorem pack_event_roundtrip:
  assumes "msgpack_codec enc dec"
  shows "(event_ok tbl ev \<longrightarrow>
      (\<exists>bytes ev'. pack_event enc clk tbl counter ev = Inr (bytes, ev', counter)
        \<and> unpack dec bytes = Some (event_value clk tbl ev) \<and> event_after ev ev'
        \<and> drop_field rbkit_message_field_complete_message_count (event_value clk tbl ev) = protocol_frame clk tbl ev))
    \<and> (holds_bytes b (emit enc cs) \<and> unat sz = length (emit enc cs) \<and> packs cs vs
        \<and> unat n = length vs \<and> length vs < 2 ^ 32 \<longrightarrow>
      (\<exists>bytes. pack_event enc clk tbl counter (new_rbkit_event_collection_event (Some b) sz n)
          = Inr (bytes, new_rbkit_event_collection_event (Some b) sz n, counter + 1)
        \<and> unpack dec bytes = Some (collection_value clk counter vs)))"
proof (intro conjI impI)
  assume ok: "event_ok tbl ev"
  with pack_event_calls [OF ok, of clk] unpack_packs [OF assms] drop_count [OF ok, of clk]
  show "\<exists>bytes ev'. pack_event enc clk tbl counter ev = Inr (bytes, ev', counter)
      \<and> unpack dec bytes = Some (event_value clk tbl ev) \<and> event_after ev ev'
      \<and> drop_field rbkit_message_field_complete_message_count (event_value clk tbl ev) = protocol_frame clk tbl ev"
    by blast
next
  assume "holds_bytes b (emit enc cs) \<and> unat sz = length (emit enc cs) \<and> packs cs vs
    \<and> unat n = length vs \<and> length vs < 2 ^ 32"
  with pack_collection_calls [of b enc cs sz vs n clk tbl counter] unpack_packs [OF assms]
  show "\<exists>bytes. pack_event enc clk tbl counter (new_rbkit_event_collection_event (Some b) sz n)
      = Inr (bytes, new_rbkit_event_collection_event (Some b) sz n, counter + 1)
    \<and> unpack dec bytes = Some (collection_value clk counter vs)" by blast
qed

definition example_clock :: clock where
  "example_clock = \<lparr>to_double = (\<lambda>i. of_int i), time_now = \<lparr>tv_sec = 1, tv_usec = 500000\<rparr>\<rparr>"

definition example_sample :: rbkit_cpu_sample where
  "example_sample = \<lparr>sample_frame_count = 1, sample_frames =
     [\<lparr>fr_method_name = Some ''each'', fr_label = Some ''Array#each'', fr_file = Some ''app.rb'',
       fr_line = 3, fr_is_singleton_method = False, fr_thread_id = 7\<rparr>]\<rparr>"

theorem pack_event_roundtrip_witness:
  "(\<exists>bytes. pack_event ref_enc example_clock st_init_strtable 0 (new_rbkit_cpu_sample_event example_sample)
       = Inr (bytes, new_rbkit_cpu_sample_event example_sample, 0)
     \<and> unpack ref_dec bytes = Some (VMap
         [(VInt 0, VInt 9), (VInt 1, VDouble 1500),
          (VInt 2, VArray [VMap
            [(VInt 12, VStr ''each''), (VInt 13, VStr ''Array#each''), (VInt 6, VStr ''app.rb''),
             (VInt 7, VInt 3), (VInt 14, VInt 0), (VInt 15, VInt 7)]])]))
     \<and> (\<exists>bytes. pack_event ref_enc example_clock st_init_strtable 4
           (new_rbkit_event_collection_event (Some (malloc_block 8)) 0 0)
         = Inr (bytes, new_rbkit_event_collection_event (Some (malloc_block 8)) 0 0, 5)
       \<and> unpack ref_dec bytes = Some (collection_value example_clock 4 []))"
proof (rule conjI)
  let ?ev = "new_rbkit_cpu_sample_event example_sample"
  have ok: "event_ok st_init_strtable ?ev"
    by (simp add: new_rbkit_cpu_sample_event_def example_sample_def frame_data_ok_def short_def)
  have v: "event_value example_clock st_init_strtable ?ev = VMap
         [(VInt 0, VInt 9), (VInt 1, VDouble 1500),
          (VInt 2, VArray [VMap
            [(VInt 12, VStr ''each''), (VInt 13, VStr ''Array#each''), (VInt 6, VStr ''app.rb''),
             (VInt 7, VInt 3), (VInt 14, VInt 0), (VInt 15, VInt 7)]])]"
    and a: "event_after ?ev ev' \<longleftrightarrow> ev' = ?ev" for ev'
    by (simp_all add: new_rbkit_cpu_sample_event_def example_sample_def example_clock_def frame_simps
      frame_data_value_def string_value_def get_wall_time_in_msec_def wall_msec_def)
  from pack_event_roundtrip [OF ref_codec, THEN conjunct1, THEN mp, OF ok, of example_clock 0]
  show "\<exists>bytes. pack_event ref_enc example_clock st_init_strtable 0 ?ev = Inr (bytes, ?ev, 0)
     \<and> unpack ref_dec bytes = Some (VMap
         [(VInt 0, VInt 9), (VInt 1, VDouble 1500),
          (VInt 2, VArray [VMap
            [(VInt 12, VStr ''each''), (VInt 13, VStr ''Array#each''), (VInt 6, VStr ''app.rb''),
             (VInt 7, VInt 3), (VInt 14, VInt 0), (VInt 15, VInt 7)]])])"
    unfolding v a by blast
  have "holds_bytes (malloc_block 8) (emit ref_enc []) \<and> unat (0 :: size_t) = length (emit ref_enc [])
      \<and> packs [] [] \<and> unat (0 :: size_t) = length ([] :: mval list) \<and> length ([] :: mval list) < 2 ^ 32"
    by (simp add: holds_bytes_def malloc_block_def packs_rules)
  from pack_event_roundtrip [OF ref_codec, THEN conjunct2, THEN mp, OF this,
      of example_clock st_init_strtable 4]
  show "\<exists>bytes. pack_event ref_enc example_clock st_init_strtable 4
           (new_rbkit_event_collection_event (Some (malloc_block 8)) 0 0)
         = Inr (bytes, new_rbkit_event_collection_event (Some (malloc_block 8)) 0 0, 5)
       \<and> unpack ref_dec bytes = Some (collection_value example_clock 4 [])" by simp
qed

text \<open>The two tables of \<open>docs/protocol.md\<close>.\<close>

definition protocol_event_types :: "(string \<times> int) list" where
  "protocol_event_types =
     [(''obj_created'', 0), (''obj_destroyed'', 1), (''gc_start'', 2), (''gc_end_m'', 3), (''gc_end_s'', 4),
      (''object_space_dump'', 5), (''gc_stats'', 6), (''event_collection'', 7), (''handshake'', 8),
      (''cpu_sample'', 9)]"

definition protocol_message_fields :: "(string \<times> int) list" where
  "protocol_message_fields =
     [(''event_type'', 0), (''timestamp'', 1), (''payload'', 2), (''object_id'', 3), (''class_name'', 4),
      (''references'', 5), (''file'', 6), (''line'', 7), (''size'', 8), (''message_counter'', 9),
      (''correlation_id'', 10), (''complete_message_count'', 11), (''method_name'', 12), (''label'', 13),
      (''singleton_method'', 14), (''thread_id'', 15)]"

text \<open>The exception for an unknown type comes from the dispatch alone.\<close>

definition implemented :: "c_error + 'a \<Rightarrow> bool" where
  "implemented r \<longleftrightarrow> (\<forall>n. r \<noteq> Inl (NotImplementedError n))"

lemma implemented_simps [simp]:
  "implemented (Inr x)" "implemented (Inl e) \<longleftrightarrow> (\<forall>n. e \<noteq> NotImplementedError n)"
  by (auto simp: implemented_def)

lemma implemented_and_then:
  "implemented r \<Longrightarrow> (\<And>x. implemented (k x)) \<Longrightarrow> implemented (and_then r k)"
  by (cases r) auto

lemma implemented_hash: "implemented (pack_hash_event clk t h)"
proof -
  have v: "implemented (pack_value_object x)" for x
    by (cases x) (auto simp: StringValueCStr_def)
  have "implemented (hash_foreach h)"
    by (induction h rule: hash_foreach.induct) (auto intro!: implemented_and_then v simp: hash_pack_iterator_def)
  then show ?thesis by (auto intro!: implemented_and_then simp: pack_hash_event_def)
qed

lemma implemented_dump: "implemented (pack_object_space_dump_event clk tbl t d)"
proof -
  have r: "implemented (pack_object_data tbl x)" for x
    by (auto intro!: implemented_and_then simp: pack_object_data_def pack_references_def c_string_at_def
      split: option.splits)
  have n: "implemented (next_object ev)" for ev
    by (auto intro!: implemented_and_then simp: next_object_def Let_def split: list.splits)
  have "implemented (pack_objects tbl k ev)" for k ev
    by (induction k arbitrary: ev) (auto intro!: implemented_and_then r n split: prod.splits)
  then show ?thesis
    by (auto intro!: implemented_and_then simp: pack_object_space_dump_event_def Let_def split: prod.splits)
qed

lemma implemented_collection: "implemented (pack_event_collection_event enc clk counter t b sz n)"
  by (auto intro!: implemented_and_then simp: pack_event_collection_event_def get_message_counter_def read_block_def
    Let_def split: option.splits)

text \<open>
  Claim C39. The numbers on the wire are those of the protocol document, and the packer
  knows exactly these. The constants \<open>EVENT_TYPES\<close> and \<open>MESSAGE_FIELDS\<close> published to Ruby are
  the document's two tables, each name with its number; and whatever the event, packing
  it raises NotImplementedError if and only if its type is in no entry of \<open>EVENT_TYPES\<close>.
\<close>

theorem wire_numbers:
  "map (\<lambda>(n, c). (n, sint c)) rbkit_event_types_as_hash = protocol_event_types
   \<and> map (\<lambda>(n, c). (n, sint c)) rbkit_message_fields_as_hash = protocol_message_fields
   \<and> ((\<exists>k. pack_event enc clk tbl counter ev = Inl (NotImplementedError k))
       \<longleftrightarrow> event_type ev \<notin> snd ` set rbkit_event_types_as_hash)"
proof -
  have codes: "snd ` set rbkit_event_types_as_hash = event_code ` set event_types"
    by (simp add: rbkit_event_types_as_hash_def event_types_def)
  have "implemented (pack_event enc clk tbl counter ev)" if "event_type_of (event_type ev) = Some t" for t
    using that implemented_hash implemented_dump implemented_collection
    by (cases t) (auto intro!: implemented_and_then simp: pack_event_def pack_cpu_sample_event_def Let_def
      split: rbkit_event.splits prod.splits)
  moreover have "pack_event enc clk tbl counter ev = Inl (NotImplementedError (unat (event_type ev)))"
    if "event_type_of (event_type ev) = None" using that by (simp add: pack_event_def Let_def)
  moreover have "event_type_of (event_type ev) = None \<longleftrightarrow> event_type ev \<notin> event_code ` set event_types"
    using event_type_of_Some event_types_UNIV by (metis imageE imageI option.exhaust option.simps(3))
  ultimately have "(\<exists>k. pack_event enc clk tbl counter ev = Inl (NotImplementedError k))
      \<longleftrightarrow> event_type ev \<notin> snd ` set rbkit_event_types_as_hash"
    unfolding codes implemented_def by (cases "event_type_of (event_type ev)") auto
  then show ?thesis
    by (simp add: rbkit_event_types_as_hash_def protocol_event_types_def rbkit_message_fields_as_hash_def
      protocol_message_fields_def)
qed

end
