(* ===== verification/Message_Aggregator.thy ===== *)
theory Message_Aggregator
  imports Event_Packer
begin

text \<open>
  \<open>ext/rbkit_message_aggregator.c\<close>: the growing array that collects packed messages until
  they are published as one collection. The array is a block of bytes, its capacity and
  its fill are 64-bit words, and the loop that doubles the capacity is a \<open>while\<close> that may
  fail to end: then the result is \<open>No_return\<close>.
\<close>

section \<open>The list\<close>

text \<open>The array pointer: \<open>NULL\<close> at start, dangling after \<open>message_list_destroy\<close>.\<close>

datatype array_pointer = Null_pointer | Dangling | Array block

record message_list =
  message_array :: array_pointer
  used_memsize :: size_t
  total_capacity :: size_t
  no_of_messages :: size_t

text \<open>The statics before the first \<open>message_list_new\<close>.\<close>

definition message_list_statics :: message_list where
  "message_list_statics = \<lparr>message_array = Null_pointer, used_memsize = 0, total_capacity = 0,
     no_of_messages = 0\<rparr>"

definition MESSAGE_BATCH_SIZE :: size_t where
  "MESSAGE_BATCH_SIZE = 400"

definition has_enough_space_for :: "size_t \<Rightarrow> message_list \<Rightarrow> bool" where
  "has_enough_space_for sz m \<longleftrightarrow> total_capacity m - used_memsize m \<ge> sz"

definition double_the_capacity :: "message_list \<Rightarrow> c_error + message_list" where
  "double_the_capacity m =
     (let capacity = total_capacity m * 2
      in case message_array m of
           Dangling \<Rightarrow> Inl Use_after_free
         | Null_pointer \<Rightarrow>
             Inr (m\<lparr>total_capacity := capacity, message_array := Array (malloc_block (unat capacity))\<rparr>)
         | Array b \<Rightarrow>
             Inr (m\<lparr>total_capacity := capacity, message_array := Array (realloc_block b (unat capacity))\<rparr>))"

definition message_list_new :: "message_list \<Rightarrow> message_list" where
  "message_list_new m =
     (let initial_size = 1024
      in \<lparr>message_array = Array (malloc_block (unat initial_size)), used_memsize = 0,
          total_capacity = initial_size, no_of_messages = 0\<rparr>)"

text \<open>\<open>free\<close> of \<open>NULL\<close> does nothing; a second \<open>free\<close> of the same block is an error.\<close>

definition message_list_destroy :: "message_list \<Rightarrow> c_error + message_list" where
  "message_list_destroy m =
     and_then
       (case message_array m of
          Null_pointer \<Rightarrow> Inr Null_pointer
        | Dangling \<Rightarrow> Inl Use_after_free
        | Array b \<Rightarrow> Inr Dangling)
       (\<lambda>a. Inr \<lparr>message_array = a, used_memsize = 0, total_capacity = 0, no_of_messages = 0\<rparr>)"

definition message_list_clear :: "message_list \<Rightarrow> message_list" where
  "message_list_clear m = m\<lparr>used_memsize := 0, no_of_messages := 0\<rparr>"

text \<open>The loop of \<open>queue_message\<close>; it also stops at the first error.\<close>

definition grow_loop :: "size_t \<Rightarrow> message_list \<Rightarrow> (c_error + message_list) option" where
  "grow_loop sz m =
     while_option (\<lambda>r. case r of Inl e \<Rightarrow> False | Inr m \<Rightarrow> \<not> has_enough_space_for sz m)
       (\<lambda>r. and_then r double_the_capacity) (Inr m)"

definition memcpy_at :: "array_pointer \<Rightarrow> nat \<Rightarrow> byte list \<Rightarrow> c_error + array_pointer" where
  "memcpy_at a off bytes =
     (case a of
        Null_pointer \<Rightarrow> Inl Null_dereference
      | Dangling \<Rightarrow> Inl Use_after_free
      | Array b \<Rightarrow> and_then (write_block b off bytes) (\<lambda>b. Inr (Array b)))"

definition queue_message :: "sbuffer \<Rightarrow> message_list \<Rightarrow> c_error + message_list" where
  "queue_message buffer m =
     (let sz = of_nat (length buffer)
      in case grow_loop sz m of
           None \<Rightarrow> Inl No_return
         | Some r \<Rightarrow>
             and_then r (\<lambda>m.
             and_then (memcpy_at (message_array m) (unat (used_memsize m)) buffer) (\<lambda>a.
             Inr (m\<lparr>message_array := a, used_memsize := used_memsize m + sz,
                    no_of_messages := no_of_messages m + 1\<rparr>))))"

definition array_block :: "array_pointer \<Rightarrow> block option" where
  "array_block a = (case a of Array b \<Rightarrow> Some b | _ \<Rightarrow> None)"

text \<open>With nothing queued the buffer stays as it was; the counter is the packer's static.\<close>

definition get_event_collection_message :: "(mp_call \<Rightarrow> byte list) \<Rightarrow> clock \<Rightarrow> str_table \<Rightarrow> ulong
    \<Rightarrow> sbuffer \<Rightarrow> message_list \<Rightarrow> c_error + sbuffer \<times> ulong" where
  "get_event_collection_message enc clk tbl counter sbuf m =
     (if no_of_messages m = 0 then Inr (sbuf, counter)
      else and_then
        (pack_event enc clk tbl counter
          (new_rbkit_event_collection_event (array_block (message_array m)) (used_memsize m)
             (no_of_messages m)))
        (\<lambda>(bytes, _, counter). Inr (bytes, counter)))"

definition queued_message_count :: "message_list \<Rightarrow> size_t" where
  "queued_message_count m = no_of_messages m"

section \<open>What the list holds\<close>

text \<open>
  \<open>queued bufs m\<close>: the list is live, its capacity is the size of its block and a power of
  two, and it holds the messages \<open>bufs\<close>, one after the other from the first byte.
\<close>

definition queued :: "sbuffer list \<Rightarrow> message_list \<Rightarrow> bool" where
  "queued bufs m \<longleftrightarrow>
     (\<exists>b k. message_array m = Array b \<and> bsize b = unat (total_capacity m)
        \<and> 10 \<le> k \<and> k \<le> 63 \<and> unat (total_capacity m) = 2 ^ k
        \<and> holds_bytes b (concat bufs))
   \<and> unat (used_memsize m) = length (concat bufs)
   \<and> no_of_messages m = of_nat (length bufs)"

text \<open>
  The contract of a message queue with its users: a message that fits the bound is
  appended to what is queued, \<open>clear\<close> empties it, \<open>count\<close> counts.
\<close>

locale message_queue =
  fixes enqueue :: "'m list \<Rightarrow> 'q \<Rightarrow> c_error + 'q"
    and clear :: "'q \<Rightarrow> 'q"
    and count :: "'q \<Rightarrow> size_t"
    and holds :: "'m list list \<Rightarrow> 'q \<Rightarrow> bool"
    and bound :: nat
  assumes enqueue_holds: "holds ms q \<Longrightarrow> length (concat ms) + length msg \<le> bound \<Longrightarrow>
      \<exists>q'. enqueue msg q = Inr q' \<and> holds (ms @ [msg]) q'"
    and clear_holds: "holds ms q \<Longrightarrow> holds [] (clear q)"
    and count_holds: "holds ms q \<Longrightarrow> count q = of_nat (length ms)"
begin

fun enqueue_all :: "'m list list \<Rightarrow> 'q \<Rightarrow> c_error + 'q" where
  "enqueue_all [] q = Inr q"
| "enqueue_all (msg # msgs) q = and_then (enqueue msg q) (enqueue_all msgs)"

lemma enqueue_all_holds:
  "holds ms q \<Longrightarrow> length (concat (ms @ msgs)) \<le> bound \<Longrightarrow>
     \<exists>q'. enqueue_all msgs q = Inr q' \<and> holds (ms @ msgs) q'"
proof (induction msgs arbitrary: ms q)
  case Nil
  then show ?case by simp
next
  case (Cons msg msgs)
  then obtain q1 where q1: "enqueue msg q = Inr q1" "holds (ms @ [msg]) q1"
    using enqueue_holds [of ms q msg] by auto
  with Cons.IH [of "ms @ [msg]" q1] Cons.prems(2) show ?case by simp
qed

lemma count_enqueued:
  assumes "holds ms q" "length (concat (ms @ msgs)) \<le> bound" "enqueue_all msgs q = Inr q'"
  shows "count q' = count q + of_nat (length msgs)"
  using enqueue_all_holds [OF assms(1,2)] assms(3) count_holds [of "ms @ msgs" q']
    count_holds [OF assms(1)] by auto

end

lemma queued_new: "queued [] (message_list_new m)"
  by (auto simp: queued_def message_list_new_def malloc_block_def intro!: exI [of _ 10])

lemma queued_clear: "queued bufs m \<Longrightarrow> queued [] (message_list_clear m)"
  by (auto simp: queued_def message_list_clear_def)

lemma grow_loop_done: "has_enough_space_for sz m \<Longrightarrow> grow_loop sz m = Some (Inr m)"
  unfolding grow_loop_def by (subst while_option_unfold) simp

lemma grow_loop_step:
  "\<not> has_enough_space_for sz m \<Longrightarrow> double_the_capacity m = Inr m' \<Longrightarrow> grow_loop sz m = grow_loop sz m'"
  unfolding grow_loop_def by (subst while_option_unfold) simp

text \<open>One doubling, while the capacity is below \<open>2 ^ 63\<close>.\<close>

lemma double_queued:
  assumes "queued bufs m" and "unat (total_capacity m) < 2 ^ 63"
  shows "\<exists>m'. double_the_capacity m = Inr m' \<and> queued bufs m'
    \<and> unat (total_capacity m') = 2 * unat (total_capacity m) \<and> used_memsize m' = used_memsize m"
proof -
  from assms(1) obtain b k where b: "message_array m = Array b" "bsize b = unat (total_capacity m)"
    "10 \<le> k" "unat (total_capacity m) = 2 ^ k" "holds_bytes b (concat bufs)"
    by (auto simp: queued_def)
  have "(2::nat) ^ k < 2 ^ 63" using assms(2) b(4) by argo
  then have k: "Suc k \<le> 63" using power_less_imp_less_exp [of "2::nat" k 63] by simp
  have c: "unat (total_capacity m * 2) = 2 * unat (total_capacity m)"
    using assms(2) by (simp add: unat_word_ariths)
  let ?m = "m\<lparr>total_capacity := total_capacity m * 2,
    message_array := Array (realloc_block b (unat (total_capacity m * 2)))\<rparr>"
  have "double_the_capacity m = Inr ?m" using b by (simp add: double_the_capacity_def Let_def)
  moreover have "holds_bytes (realloc_block b (unat (total_capacity m * 2))) (concat bufs)"
    using b c by (intro holds_bytes_realloc) simp_all
  then have "queued bufs ?m"
    using assms(1) b k c by (auto simp: queued_def realloc_block_def intro!: exI [of _ "Suc k"])
  ultimately show ?thesis using c by auto
qed

lemma has_enough_space_unat:
  assumes "queued bufs m" and "n < 2 ^ 64"
  shows "has_enough_space_for (of_nat n) m \<longleftrightarrow> length (concat bufs) + n \<le> unat (total_capacity m)"
proof -
  from assms(1) have le: "unat (used_memsize m) \<le> unat (total_capacity m)"
    and used: "unat (used_memsize m) = length (concat bufs)"
    by (auto simp: queued_def holds_bytes_def)
  then have "unat (total_capacity m - used_memsize m) = unat (total_capacity m) - length (concat bufs)"
    by (simp add: unat_sub word_le_nat_alt)
  with le used assms(2) show ?thesis
    by (auto simp: has_enough_space_for_def word_le_nat_alt unat_of_nat)
qed

lemma grow_loop_queued:
  assumes "queued bufs m" and "length (concat bufs) + n \<le> 2 ^ 63"
  shows "\<exists>m'. grow_loop (of_nat n) m = Some (Inr m') \<and> queued bufs m'
    \<and> length (concat bufs) + n \<le> unat (total_capacity m')"
  using assms
proof (induction m rule: measure_induct_rule [where f = "\<lambda>m. 2 ^ 63 - unat (total_capacity m)"])
  case (less m)
  have e: "has_enough_space_for (of_nat n) m \<longleftrightarrow> length (concat bufs) + n \<le> unat (total_capacity m)"
    using less.prems by (intro has_enough_space_unat) simp_all
  show ?case
  proof (cases "has_enough_space_for (of_nat n) m")
    case True
    with e less.prems show ?thesis by (auto simp: grow_loop_done)
  next
    case False
    with e less.prems(2) have lt: "unat (total_capacity m) < 2 ^ 63" by simp
    from double_queued [OF less.prems(1) lt] obtain m' where
      m': "double_the_capacity m = Inr m'" "queued bufs m'"
        "unat (total_capacity m') = 2 * unat (total_capacity m)" by blast
    from less.prems(1) have "0 < unat (total_capacity m)" by (auto simp: queued_def)
    with lt m'(3) less.IH [OF _ m'(2) less.prems(2)] show ?thesis
      by (simp add: grow_loop_step [OF False m'(1)])
  qed
qed

lemma queue_message_queued:
  assumes q: "queued bufs m" and n: "length (concat bufs) + length buf \<le> 2 ^ 63"
  shows "\<exists>m'. queue_message buf m = Inr m' \<and> queued (bufs @ [buf]) m'"
proof -
  from grow_loop_queued [OF q n] obtain m1 where
    m1: "grow_loop (of_nat (length buf)) m = Some (Inr m1)" "queued bufs m1"
      "length (concat bufs) + length buf \<le> unat (total_capacity m1)" by blast
  from m1(2) obtain b k where b: "message_array m1 = Array b" "bsize b = unat (total_capacity m1)"
    "10 \<le> k" "k \<le> 63" "unat (total_capacity m1) = 2 ^ k" "holds_bytes b (concat bufs)"
    and used: "unat (used_memsize m1) = length (concat bufs)"
    and count: "no_of_messages m1 = of_nat (length bufs)"
    by (auto simp: queued_def)
  from holds_bytes_write [OF b(6), of buf] m1(3) b(2) obtain b' where
    b': "write_block b (length (concat bufs)) buf = Inr b'" "bsize b' = bsize b"
      "holds_bytes b' (concat bufs @ buf)" by auto
  have "unat (used_memsize m1 + of_nat (length buf)) = length (concat bufs) + length buf"
    using used n by (simp add: unat_add_small unat_of_nat)
  with m1(1) b b' used count show ?thesis
    by (auto simp: queue_message_def memcpy_at_def queued_def)
qed

interpretation aggregator: message_queue queue_message message_list_clear queued_message_count queued "2 ^ 63"
proof unfold_locales
  fix ms :: "sbuffer list" and q and msg :: sbuffer
  assume "queued ms q"
  then show "queued_message_count q = of_nat (length ms)"
    by (simp add: queued_message_count_def queued_def)
  show "queued [] (message_list_clear q)" using \<open>queued ms q\<close> by (rule queued_clear)
  assume "length (concat ms) + length msg \<le> 2 ^ 63"
  with \<open>queued ms q\<close> show "\<exists>q'. queue_message msg q = Inr q' \<and> queued (ms @ [msg]) q'"
    by (rule queue_message_queued)
qed

section \<open>A batch, from the events to the published message\<close>

text \<open>
  What a producer does for each event: pack it into its buffer, queue the buffer. Every
  event comes with the clock and the string table of its moment.
\<close>

type_synonym timed_event = "clock \<times> str_table \<times> rbkit_event"

definition packed :: "(mp_call \<Rightarrow> byte list) \<Rightarrow> timed_event \<Rightarrow> sbuffer" where
  "packed enc e = (case e of (clk, tbl, ev) \<Rightarrow>
     (case pack_event enc clk tbl 0 ev of Inl _ \<Rightarrow> [] | Inr (bytes, _) \<Rightarrow> bytes))"

fun queue_events :: "(mp_call \<Rightarrow> byte list) \<Rightarrow> timed_event list \<Rightarrow> message_list \<Rightarrow> c_error + message_list" where
  "queue_events enc [] m = Inr m"
| "queue_events enc ((clk, tbl, ev) # es) m =
     and_then (pack_event enc clk tbl 0 ev) (\<lambda>(bytes, _, _).
     and_then (queue_message bytes m) (queue_events enc es))"

definition timed_ok :: "timed_event \<Rightarrow> bool" where
  "timed_ok e = (case e of (clk, tbl, ev) \<Rightarrow> event_ok tbl ev)"

definition timed_value :: "timed_event \<Rightarrow> mval" where
  "timed_value e = (case e of (clk, tbl, ev) \<Rightarrow> event_value clk tbl ev)"

lemma packed_calls:
  assumes "timed_ok e"
  shows "\<exists>calls. packed enc e = emit enc calls \<and> packs calls [timed_value e]"
proof (cases e)
  case (fields clk tbl ev)
  with assms pack_event_calls [of tbl ev clk] show ?thesis
    by (fastforce simp: packed_def timed_ok_def timed_value_def)
qed

lemma packs_append:
  "packs cs vs \<Longrightarrow> packs ds ws \<Longrightarrow> packs (cs @ ds) (vs @ ws)"
  by (simp add: packs_def items_append_Some)

lemma packed_concat:
  "list_all timed_ok es \<Longrightarrow>
     \<exists>calls. concat (map (packed enc) es) = emit enc calls \<and> packs calls (map timed_value es)"
proof (induction es)
  case Nil
  then show ?case by (auto simp: packs_def intro: exI [of _ "[]"])
next
  case (Cons e es)
  then obtain cs where cs: "concat (map (packed enc) es) = emit enc cs" "packs cs (map timed_value es)"
    by auto
  from Cons.prems packed_calls [of e enc] obtain c where
    "packed enc e = emit enc c" "packs c [timed_value e]" by auto
  with cs packs_append [of c "[timed_value e]" cs] show ?case
    by (auto intro!: exI [of _ "c @ cs"])
qed

lemma queue_events_eq:
  "list_all timed_ok es \<Longrightarrow> queue_events enc es m = aggregator.enqueue_all (map (packed enc) es) m"
proof (induction enc es m rule: queue_events.induct)
  case (2 enc clk tbl ev es m)
  then have "event_ok tbl ev" by (simp add: timed_ok_def)
  then obtain bytes ev' where "pack_event enc clk tbl 0 ev = Inr (bytes, ev', 0)"
    using pack_event_calls [of tbl ev clk] by blast
  with 2 show ?case by (simp add: packed_def and_then_def split: sum.splits)
qed simp

text \<open>A collection of what is queued, when every message is the packing of an event.\<close>

lemma collection_of_queued:
  assumes codec: "msgpack_codec enc dec" and ok: "list_all timed_ok es"
    and q: "queued (map (packed enc) es) m" and ne: "es \<noteq> []" and n: "length es < 2 ^ 32"
  shows "\<exists>bytes. get_event_collection_message enc clk tbl counter sbuf m = Inr (bytes, counter + 1)
    \<and> unpack dec bytes = Some (collection_value clk counter (map timed_value es))"
proof -
  from packed_concat [OF ok] obtain cs where
    cs: "concat (map (packed enc) es) = emit enc cs" "packs cs (map timed_value es)" by blast
  from q obtain b where b: "message_array m = Array b" "holds_bytes b (emit enc cs)"
    and sz: "unat (used_memsize m) = length (emit enc cs)"
    and count: "no_of_messages m = of_nat (length es)"
    by (auto simp: queued_def cs(1))
  have u: "unat (no_of_messages m) = length (map timed_value es)"
    using count n by (simp add: unat_of_nat)
  with ne have "no_of_messages m \<noteq> 0" by auto
  moreover obtain calls where "pack_event enc clk tbl counter
      (new_rbkit_event_collection_event (Some b) (used_memsize m) (no_of_messages m))
      = Inr (emit enc calls,
          new_rbkit_event_collection_event (Some b) (used_memsize m) (no_of_messages m), counter + 1)"
    "packs calls [collection_value clk counter (map timed_value es)]"
    using pack_collection_calls [OF b(2) sz cs(2) u, of clk tbl counter] n by auto
  ultimately show ?thesis
    using b(1) unpack_packs [OF codec]
    by (auto simp: get_event_collection_message_def array_block_def)
qed

text \<open>
  Claim C5. However many events (fewer than \<open>2 ^ 32\<close>, at most \<open>2 ^ 63\<close> bytes) are packed and
  queued on a fresh list, queueing succeeds, and the collection message built from the
  list decodes to one frame whose payload is the array of exactly those events' frames,
  in the order they were queued, with the next message counter. The list then clears.
\<close>

theorem batch_roundtrip:
  assumes "msgpack_codec enc dec" and "list_all timed_ok es" and "es \<noteq> []"
    and "length es < 2 ^ 32" and "length (concat (map (packed enc) es)) \<le> 2 ^ 63"
  shows "\<exists>m bytes. queue_events enc es (message_list_new message_list_statics) = Inr m
    \<and> queued_message_count m = of_nat (length es)
    \<and> get_event_collection_message enc clk tbl counter [] m = Inr (bytes, counter + 1)
    \<and> unpack dec bytes = Some (collection_value clk counter (map timed_value es))
    \<and> queued [] (message_list_clear m)"
proof -
  from aggregator.enqueue_all_holds [OF queued_new, of "map (packed enc) es" message_list_statics]
  obtain m where m: "queue_events enc es (message_list_new message_list_statics) = Inr m"
      "queued (map (packed enc) es) m"
    using assms by (auto simp: queue_events_eq)
  from collection_of_queued [OF assms(1,2) m(2) assms(3,4)] m
    aggregator.count_holds [OF m(2)] queued_clear [OF m(2)]
  show ?thesis by fastforce
qed

definition example_batch :: "timed_event list" where
  "example_batch =
     [(example_clock, st_init_strtable, Event_header (event_code gc_start)),
      (example_clock, st_init_strtable, new_rbkit_obj_destroyed_event 42)]"

theorem batch_roundtrip_witness:
  "\<exists>m bytes. queue_events ref_enc example_batch (message_list_new message_list_statics) = Inr m
    \<and> queued_message_count m = 2
    \<and> get_event_collection_message ref_enc example_clock st_init_strtable 5 [] m = Inr (bytes, 6)
    \<and> unpack ref_dec bytes = Some (VMap [(VInt 0, VInt 7), (VInt 1, VDouble 1500), (VInt 9, VInt 5),
        (VInt 2, VArray [VMap [(VInt 0, VInt 2), (VInt 1, VDouble 1500)],
                         VMap [(VInt 0, VInt 1), (VInt 1, VDouble 1500),
                               (VInt 2, VMap [(VInt 3, VInt 42)])]])])"
proof -
  have ok: "list_all timed_ok example_batch" "example_batch \<noteq> []" "length example_batch = 2"
    by (simp_all add: example_batch_def timed_ok_def new_rbkit_obj_destroyed_event_def)
  have len: "length (concat (map (packed ref_enc) example_batch)) \<le> 2 ^ 63"
    by (simp add: example_batch_def packed_def pack_event_def new_rbkit_obj_destroyed_event_def
      pack_event_header_only_def pack_obj_destroyed_event_def pack_event_header_def pack_timestamp_def)
  from batch_roundtrip [OF ref_codec ok(1,2) _ len, of example_clock st_init_strtable 5] ok(3)
  show ?thesis
    by (auto simp: example_batch_def timed_value_def new_rbkit_obj_destroyed_event_def
      collection_value_def frame_simps example_clock_def get_wall_time_in_msec_def wall_msec_def)
qed

section \<open>Growth, and what happens without a list\<close>

lemma grow_loop_capacity:
  "queued bufs m \<Longrightarrow> length (concat bufs) + n \<le> 2 ^ 63 \<Longrightarrow> grow_loop (of_nat n) m = Some (Inr m') \<Longrightarrow>
     total_capacity m' = total_capacity m \<or> unat (total_capacity m') < 2 * (length (concat bufs) + n)"
proof (induction m rule: measure_induct_rule [where f = "\<lambda>m. 2 ^ 63 - unat (total_capacity m)"])
  case (less m)
  show ?case
  proof (cases "has_enough_space_for (of_nat n) m")
    case True
    with less.prems(3) show ?thesis by (simp add: grow_loop_done)
  next
    case False
    with less.prems(1,2) have lt: "unat (total_capacity m) < length (concat bufs) + n"
      using has_enough_space_unat [of bufs m n] by simp
    with less.prems(2) obtain m1 where m1: "double_the_capacity m = Inr m1" "queued bufs m1"
      "unat (total_capacity m1) = 2 * unat (total_capacity m)"
      using double_queued [OF less.prems(1)] by auto
    from less.prems(1) have "0 < unat (total_capacity m)" by (auto simp: queued_def)
    with lt m1(3) less.prems less.IH [OF _ m1(2)]
    have "total_capacity m' = total_capacity m1 \<or> unat (total_capacity m') < 2 * (length (concat bufs) + n)"
      by (simp add: grow_loop_step [OF False m1(1)])
    with m1(3) lt show ?thesis by auto
  qed
qed

lemma queue_message_capacity:
  assumes "queue_message buf m = Inr m'"
  shows "\<exists>m1. grow_loop (of_nat (length buf)) m = Some (Inr m1) \<and> total_capacity m' = total_capacity m1"
  using assms by (auto simp: queue_message_def and_then_eq_Inr Let_def split: option.splits)

text \<open>
  Claim C14. As long as the queued bytes and the new message stay within \<open>2 ^ 63\<close> bytes the
  doubling loop ends, the copy stays inside the block, the new message goes behind the
  old ones without touching them, and the capacity either stays or is less than twice
  what is needed.
\<close>

theorem queue_message_safe:
  assumes "queued bufs m" and "length (concat bufs) + length buf \<le> 2 ^ 63"
  shows "\<exists>m'. queue_message buf m = Inr m' \<and> queued (bufs @ [buf]) m'
    \<and> (total_capacity m' = total_capacity m
       \<or> unat (total_capacity m') < 2 * (length (concat bufs) + length buf))"
  using queue_message_queued [OF assms] queue_message_capacity grow_loop_capacity [OF assms] by metis

theorem queue_message_safe_witness:
  "\<exists>m'. queue_message (replicate 3000 7) (message_list_new message_list_statics) = Inr m'
    \<and> queued [replicate 3000 7] m' \<and> unat (total_capacity m') < 6000"
proof -
  from queue_message_safe [OF queued_new, of "replicate 3000 7" message_list_statics]
  obtain m' where m': "queue_message (replicate 3000 7) (message_list_new message_list_statics) = Inr m'"
    "queued [replicate 3000 7] m'"
    "total_capacity m' = total_capacity (message_list_new message_list_statics)
       \<or> unat (total_capacity m') < 6000" by auto
  then show ?thesis by (auto simp: message_list_new_def)
qed

lemma grow_loop_statics: "0 < sz \<Longrightarrow> grow_loop sz message_list_statics = None"
proof (rule ccontr)
  assume sz: "0 < sz"
  let ?P = "\<lambda>r. \<exists>m. r = Inr m \<and> total_capacity m = 0 \<and> used_memsize m = 0 \<and> message_array m \<noteq> Dangling"
  assume "grow_loop sz message_list_statics \<noteq> None"
  then obtain r where r: "grow_loop sz message_list_statics = Some r" by auto
  have "?P (and_then s double_the_capacity)" if "?P s" for s
    using that by (auto simp: double_the_capacity_def Let_def split: array_pointer.splits)
  then have "?P r"
    using r unfolding grow_loop_def
    by (rule_tac P = ?P in while_option_rule) (auto simp: message_list_statics_def)
  moreover have "\<not> (case r of Inl e \<Rightarrow> False | Inr m \<Rightarrow> \<not> has_enough_space_for sz m)"
    using r unfolding grow_loop_def by (rule while_option_stop)
  ultimately show False using sz by (auto simp: has_enough_space_for_def)
qed

lemma queue_message_dead:
  assumes "0 < length buf" "length buf < 2 ^ 64" "message_list_destroy m = Inr d"
    "message_array m = Array b"
  shows "queue_message buf d = Inl Use_after_free"
proof -
  from assms(1,2) have sz: "0 < (of_nat (length buf) :: size_t)"
    by (simp add: word_less_nat_alt unat_of_nat)
  from assms(3,4) have d: "message_array d = Dangling" "total_capacity d = 0" "used_memsize d = 0"
    by (auto simp: message_list_destroy_def)
  have "grow_loop (of_nat (length buf)) d = Some (Inl Use_after_free)"
    unfolding grow_loop_def using d sz
    by (subst while_option_unfold, simp add: has_enough_space_for_def,
        subst while_option_unfold) (simp add: double_the_capacity_def Let_def)
  then show ?thesis by (simp add: queue_message_def)
qed

text \<open>
  Claim C33. A message queued without a live list is never accepted. Before the first
  \<open>message_list_new\<close> the capacity is zero, doubling keeps it zero and the loop runs for
  ever; after \<open>message_list_destroy\<close> the loop reallocates the freed block.
\<close>

theorem queue_needs_live_list:
  assumes "0 < length buf" and "length buf < 2 ^ 64" and "queued bufs m"
  shows "queue_message buf message_list_statics = Inl No_return
    \<and> (\<exists>d. message_list_destroy m = Inr d \<and> queue_message buf d = Inl Use_after_free)"
proof -
  have "0 < (of_nat (length buf) :: size_t)"
    using assms(1,2) by (simp add: word_less_nat_alt unat_of_nat)
  moreover obtain b where b: "message_array m = Array b" using assms(3) by (auto simp: queued_def)
  then obtain d where "message_list_destroy m = Inr d" by (auto simp: message_list_destroy_def)
  ultimately show ?thesis
    using queue_message_dead [OF assms(1,2) _ b] by (simp add: queue_message_def grow_loop_statics)
qed

theorem queue_needs_live_list_witness:
  "queue_message [1] message_list_statics = Inl No_return
    \<and> (\<exists>d. message_list_destroy (message_list_new message_list_statics) = Inr d
         \<and> queue_message [1] d = Inl Use_after_free)"
  using queue_needs_live_list [of "[1]", OF _ _ queued_new] by simp


section \<open>The growing block against a plain list\<close>

text \<open>
  A reference for the component that has no block, no capacity and no sizes: the queued
  byte strings as a list, and a collection message as the packed head with their
  concatenation behind it.
\<close>

datatype list_op = Op_queue sbuffer | Op_clear | Op_collect clock str_table

definition list_collection :: "(mp_call \<Rightarrow> byte list) \<Rightarrow> clock \<Rightarrow> ulong \<Rightarrow> sbuffer list \<Rightarrow> sbuffer" where
  "list_collection enc clk counter bufs =
     emit enc (pack_event_collection_calls clk (event_code event_collection) counter (of_nat (length bufs)))
       @ concat bufs"

fun list_run :: "(mp_call \<Rightarrow> byte list) \<Rightarrow> list_op list \<Rightarrow> ulong \<Rightarrow> sbuffer list \<Rightarrow> sbuffer list" where
  "list_run enc [] counter bufs = []"
| "list_run enc (Op_queue buf # ops) counter bufs = list_run enc ops counter (bufs @ [buf])"
| "list_run enc (Op_clear # ops) counter bufs = list_run enc ops counter []"
| "list_run enc (Op_collect clk tbl # ops) counter bufs =
     (if bufs = [] then [] # list_run enc ops counter bufs
      else list_collection enc clk counter bufs # list_run enc ops (counter + 1) bufs)"

text \<open>The same operations on the component, with the messages they produce.\<close>

fun array_run :: "(mp_call \<Rightarrow> byte list) \<Rightarrow> list_op list \<Rightarrow> ulong \<Rightarrow> message_list \<Rightarrow> c_error + sbuffer list" where
  "array_run enc [] counter m = Inr []"
| "array_run enc (Op_queue buf # ops) counter m = and_then (queue_message buf m) (array_run enc ops counter)"
| "array_run enc (Op_clear # ops) counter m = array_run enc ops counter (message_list_clear m)"
| "array_run enc (Op_collect clk tbl # ops) counter m =
     and_then (get_event_collection_message enc clk tbl counter [] m) (\<lambda>(msg, counter).
     and_then (array_run enc ops counter m) (\<lambda>msgs. Inr (msg # msgs)))"

fun queued_size :: "list_op \<Rightarrow> nat" where
  "queued_size (Op_queue buf) = length buf"
| "queued_size _ = 0"

lemma collection_bytes:
  assumes q: "queued bufs m" and n: "length bufs < 2 ^ 64"
  shows "get_event_collection_message enc clk tbl counter [] m
    = Inr (if bufs = [] then ([], counter) else (list_collection enc clk counter bufs, counter + 1))"
proof -
  from q obtain b where b: "message_array m = Array b" "holds_bytes b (concat bufs)"
    and sz: "unat (used_memsize m) = length (concat bufs)"
    and count: "no_of_messages m = of_nat (length bufs)" by (auto simp: queued_def)
  have u: "unat (of_nat (length bufs) :: size_t) = length bufs" using n by (simp add: unat_of_nat)
  have z: "no_of_messages m = 0 \<longleftrightarrow> bufs = []"
  proof
    assume "no_of_messages m = 0"
    with count have "(of_nat (length bufs) :: size_t) = 0" by simp
    with u have "length bufs = 0" by simp
    then show "bufs = []" by simp
  qed (simp add: count)
  have "read_block b (unat (used_memsize m)) = Inr (concat bufs)"
    using holds_bytes_read [OF b(2)] sz by simp
  with b(1) z count show ?thesis
    by (simp add: get_event_collection_message_def array_block_def pack_event_def Let_def list_collection_def
      pack_event_collection_event_def new_rbkit_event_collection_event_def get_message_counter_def)
qed

lemma array_run_list:
  "queued bufs m \<Longrightarrow> length (concat bufs) + sum_list (map queued_size ops) \<le> 2 ^ 63 \<Longrightarrow>
   length bufs + length ops < 2 ^ 64 \<Longrightarrow> array_run enc ops counter m = Inr (list_run enc ops counter bufs)"
proof (induction enc ops counter bufs arbitrary: m rule: list_run.induct)
  case (2 enc buf ops counter bufs)
  from 2(3) queue_message_queued [OF 2(2), of buf] obtain m' where
    "queue_message buf m = Inr m'" "queued (bufs @ [buf]) m'" by auto
  with 2(1) [of m'] 2(3,4) show ?case by simp
next
  case (3 enc ops counter bufs)
  with queued_clear [OF 3(2)] show ?case by simp
next
  case (4 enc clk tbl ops counter bufs)
  from 4(5) have n: "length bufs < 2 ^ 64" by simp
  show ?case
  proof (cases "bufs = []")
    case True
    with 4(1) [OF _ 4(3)] 4(4,5) collection_bytes [OF 4(3) n, of enc clk tbl counter] show ?thesis by simp
  next
    case False
    with 4(2) [OF _ 4(3)] 4(4,5) collection_bytes [OF 4(3) n, of enc clk tbl counter] show ?thesis by simp
  qed
qed simp

text \<open>
  Claim C13. The growing block behaves as a plain list. Whatever sequence of queueing,
  clearing and collecting is run on a fresh list, as long as the queued bytes stay within
  \<open>2 ^ 63\<close>, no operation fails and every message collected is, byte for byte, the one the
  reference makes: the packed head with the count of messages, then the queued byte
  strings in order; and it is empty when nothing is queued.
\<close>

theorem aggregator_equals_list:
  assumes "sum_list (map queued_size ops) \<le> 2 ^ 63" and "length ops < 2 ^ 64"
  shows "array_run enc ops counter (message_list_new m) = Inr (list_run enc ops counter [])"
  using array_run_list [OF queued_new] assms by simp

theorem aggregator_equals_list_witness:
  "array_run ref_enc [Op_collect example_clock st_init_strtable, Op_queue [1, 2], Op_queue [3],
       Op_collect example_clock st_init_strtable, Op_clear, Op_collect example_clock st_init_strtable]
     5 (message_list_new message_list_statics)
   = Inr [[], list_collection ref_enc example_clock 5 [[1, 2], [3]], []]"
proof -
  let ?ops = "[Op_collect example_clock st_init_strtable, Op_queue [1, 2], Op_queue [3],
       Op_collect example_clock st_init_strtable, Op_clear, Op_collect example_clock st_init_strtable]"
  from aggregator_equals_list [of ?ops ref_enc 5 message_list_statics] show ?thesis by simp
qed

end
