(* ===== verification/Rbkit_Server.thy ===== *)
theory Rbkit_Server
  imports Message_Aggregator
begin

text \<open>
  \<open>ext/rbkit_server.c\<close>, \<open>ext/rbkit_server.h\<close> and \<open>ext/rbkit_test_helper.c\<close>: the profiling
  server. Its statics, the Ruby VM's tracepoints and postponed jobs, the kernel's timers
  and the two callbacks of the server object are one state; every C function that
  changes it is an operation on that state.

  Calls of the ZeroMQ library are recorded, in order, in \<open>zmq_log\<close>; what the library
  returns is an argument of the operation. What Ruby code does while a callback of the
  server object runs is an argument too.
\<close>

section \<open>State\<close>

type_synonym handle = nat

datatype zmq_type = ZMQ_PUB | ZMQ_REP

text \<open>\<open>NULL\<close> arguments of \<open>zmq_close\<close> and \<open>zmq_ctx_destroy\<close> are \<open>None\<close>.\<close>

datatype zmq_call =
    Zmq_ctx_new handle
  | Zmq_socket zmq_type handle
  | Zmq_bind handle string
  | Zmq_send handle sbuffer
  | Zmq_msg_recv "handle option"
  | Zmq_close "handle option"
  | Zmq_ctx_destroy "handle option"

datatype trace_kind = NEWOBJ | FREEOBJ | GC_START | GC_END_MARK | GC_END_SWEEP

text \<open>
  A tracepoint of the VM: the event it listens to, the logger its \<open>data\<close> points to (by the
  number of that allocation) and whether it is enabled. Tracepoints are named by their
  position in the VM's list.
\<close>

record tracepoint =
  hook_kind :: trace_kind
  hook_data :: nat
  hook_enabled :: bool

text \<open>
  The struct \<open>rbkit_logger\<close>. \<open>ALLOC_N\<close> leaves \<open>hooks\<close> unset (\<open>None\<close>); a trace that is 0 is
  \<open>None\<close>. \<open>lg_sbuf\<close> is what its packer wrote last.
\<close>

record rbkit_logger =
  lg_hooks :: "nat list option"
  lg_enabled :: bool
  lg_sampling_profiler_enabled :: bool
  lg_object_table :: object_table
  lg_str_table :: str_table
  lg_newobj_trace :: "nat option"
  lg_freeobj_trace :: "nat option"
  lg_sbuf :: sbuffer

text \<open>
  \<open>logger_number\<close> counts the loggers allocated so far, \<open>published\<close> and \<open>responded\<close> are the
  messages handed to the callbacks of the server object.
\<close>

record server =
  logger :: "rbkit_logger option"
  logger_number :: nat
  zmq_publisher :: "handle option"
  zmq_context :: "handle option"
  zmq_response_socket :: "handle option"
  poll_item :: "handle option"
  test_mode_enabled :: bool
  server_instance :: bool
  messages :: message_list
  message_counter :: ulong
  correlation_id :: c_int
  cpu_profiler :: profiler
  jobs :: "job list"
  tracepoints :: "tracepoint list"
  zmq_log :: "zmq_call list"
  publish_callback :: bool
  respond_callback :: bool
  published :: "sbuffer list"
  responded :: "sbuffer list"

text \<open>A process that has just loaded the extension.\<close>

definition server_init :: server where
  "server_init = \<lparr>logger = None, logger_number = 0, zmq_publisher = None, zmq_context = None,
     zmq_response_socket = None, poll_item = None, test_mode_enabled = False,
     server_instance = False, messages = message_list_statics, message_counter = 0,
     correlation_id = 0, cpu_profiler = profiler_init, jobs = [], tracepoints = [],
     zmq_log = [], publish_callback = False, respond_callback = False, published = [],
     responded = []\<rparr>"

text \<open>What the operations need of their host: the encoder, the clock, the VM, the room for jobs.\<close>

record host =
  host_enc :: "mp_call \<Rightarrow> byte list"
  host_clock :: clock
  host_vm :: ruby_vm
  job_capacity :: nat

text \<open>Ruby code that runs inside a callback: whether it raises, and the state it leaves.\<close>

type_synonym ruby_code = "server \<Rightarrow> c_error + bool \<times> server"

definition get_trace_logger :: "server \<Rightarrow> server" where
  "get_trace_logger s =
     (case logger s of
        Some l \<Rightarrow> s
      | None \<Rightarrow> s\<lparr>logger := Some \<lparr>lg_hooks = None, lg_enabled = False,
                    lg_sampling_profiler_enabled = False, lg_object_table = (\<lambda>_. None),
                    lg_str_table = st_init_strtable, lg_newobj_trace = None,
                    lg_freeobj_trace = None, lg_sbuf = []\<rparr>,
                  logger_number := logger_number s + 1\<rparr>)"

section \<open>Publishing and responding\<close>

definition log_zmq :: "zmq_call \<Rightarrow> server \<Rightarrow> server" where
  "log_zmq c s = s\<lparr>zmq_log := zmq_log s @ [c]\<rparr>"

text \<open>
  The callback is read from the server object that called \<open>start_stat_server\<close>. The new
  string and the callback itself are Ruby code.
\<close>

definition publish_message :: "ruby_code \<Rightarrow> sbuffer \<Rightarrow> server \<Rightarrow> c_error + bool \<times> server" where
  "publish_message during buf s =
     (let s = (case zmq_publisher s of None \<Rightarrow> s | Some p \<Rightarrow> log_zmq (Zmq_send p buf) s)
      in if server_instance s \<and> publish_callback s
         then during (s\<lparr>published := published s @ [buf]\<rparr>) else Inr (False, s))"

definition respond_with_message :: "ruby_code \<Rightarrow> sbuffer \<Rightarrow> server \<Rightarrow> c_error + bool \<times> server" where
  "respond_with_message during buf s =
     (let s = (case zmq_response_socket s of None \<Rightarrow> s | Some p \<Rightarrow> log_zmq (Zmq_send p buf) s)
      in if server_instance s \<and> respond_callback s
         then during (s\<lparr>responded := responded s @ [buf]\<rparr>) else Inr (False, s))"

text \<open>The string table behind the paths of a dump; only dump events look at it.\<close>

definition strings_of :: "server \<Rightarrow> str_table" where
  "strings_of s = (case logger s of None \<Rightarrow> st_init_strtable | Some l \<Rightarrow> lg_str_table l)"

text \<open>A callback that raises leaves the job before the list is cleared.\<close>

definition trigger_publish_callback :: "host \<Rightarrow> ruby_code \<Rightarrow> server \<Rightarrow> c_error + server" where
  "trigger_publish_callback h during s =
     and_then (get_event_collection_message (host_enc h) (host_clock h) (strings_of s)
                 (message_counter s) [] (messages s)) (\<lambda>(sbuf, counter).
     let s = s\<lparr>message_counter := counter\<rparr>
     in and_then (if 0 < length sbuf then publish_message during sbuf s else Inr (False, s)) (\<lambda>(raised, s).
        Inr (if raised then s else s\<lparr>messages := message_list_clear (messages s)\<rparr>)))"

definition send_messages :: "host \<Rightarrow> server \<Rightarrow> server" where
  "send_messages h s =
     (if test_mode_enabled s then s
      else s\<lparr>jobs := postponed_job_register (job_capacity h) Publish_job (jobs s)\<rparr>)"

definition send_message :: "host \<Rightarrow> sbuffer \<Rightarrow> server \<Rightarrow> c_error + server" where
  "send_message h buffer s =
     and_then (queue_message buffer (messages s)) (\<lambda>m.
     let s = s\<lparr>messages := m\<rparr>
     in Inr (if queued_message_count (messages s) = MESSAGE_BATCH_SIZE then send_messages h s else s))"

section \<open>The tracepoint hooks\<close>

text \<open>
  A hook's \<open>data\<close> is the logger it was created with; when that one has been freed the hook
  works on freed memory.
\<close>

definition hook_logger :: "tracepoint \<Rightarrow> server \<Rightarrow> c_error + rbkit_logger" where
  "hook_logger tp s =
     (case logger s of
        None \<Rightarrow> Inl Use_after_free
      | Some l \<Rightarrow> if hook_data tp = logger_number s then Inr l else Inl Use_after_free)"

text \<open>Pack into the logger's buffer, free the event, send the buffer.\<close>

definition pack_and_send :: "host \<Rightarrow> rbkit_event \<Rightarrow> rbkit_logger \<Rightarrow> server \<Rightarrow> c_error + server" where
  "pack_and_send h ev arg s =
     and_then (pack_event (host_enc h) (host_clock h) (lg_str_table arg) (message_counter s) ev)
       (\<lambda>(bytes, _, counter).
     send_message h bytes
       (s\<lparr>logger := Some (arg\<lparr>lg_sbuf := bytes\<rparr>), message_counter := counter\<rparr>))"

definition gc_start_i :: "host \<Rightarrow> rbkit_logger \<Rightarrow> server \<Rightarrow> c_error + server" where
  "gc_start_i h arg s = pack_and_send h (Event_header (event_code gc_start)) arg s"

definition gc_end_mark_i :: "host \<Rightarrow> rbkit_logger \<Rightarrow> server \<Rightarrow> c_error + server" where
  "gc_end_mark_i h arg s = pack_and_send h (Event_header (event_code gc_end_m)) arg s"

definition gc_end_sweep_i :: "host \<Rightarrow> rbkit_logger \<Rightarrow> server \<Rightarrow> c_error + server" where
  "gc_end_sweep_i h arg s = pack_and_send h (Event_header (event_code gc_end_s)) arg s"

definition newobj_i :: "host \<Rightarrow> size_t \<Rightarrow> trace_arg \<Rightarrow> rbkit_logger \<Rightarrow> server \<Rightarrow> c_error + server" where
  "newobj_i h gc_count tparg arg s =
     and_then (new_rbkit_allocation_info gc_count tparg (lg_str_table arg) (lg_object_table arg))
       (\<lambda>(info, tbl, objects).
     let obj = tp_object tparg;
         klass = basic_class (host_vm h) obj;
         class_name = (if dumpable (host_vm h) obj then Some (class2name (host_vm h) klass) else None);
         event = new_rbkit_obj_created_event (obj_id (host_vm h) obj) class_name info
     in pack_and_send h event (arg\<lparr>lg_str_table := tbl, lg_object_table := objects\<rparr>) s)"

definition freeobj_i :: "host \<Rightarrow> VALUE \<Rightarrow> rbkit_logger \<Rightarrow> server \<Rightarrow> c_error + server" where
  "freeobj_i h obj arg s =
     and_then (delete_rbkit_allocation_info obj (lg_str_table arg) (lg_object_table arg))
       (\<lambda>(tbl, objects).
     let event = new_rbkit_obj_destroyed_event (obj_id (host_vm h) obj)
     in pack_and_send h event (arg\<lparr>lg_str_table := tbl, lg_object_table := objects\<rparr>) s)"

text \<open>What happens in the VM, and the hook it goes to.\<close>

datatype vm_event =
    New_object size_t trace_arg
  | Free_object VALUE
  | Gc_started
  | Gc_marked
  | Gc_swept

fun vm_kind :: "vm_event \<Rightarrow> trace_kind" where
  "vm_kind (New_object gc_count tparg) = NEWOBJ"
| "vm_kind (Free_object obj) = FREEOBJ"
| "vm_kind Gc_started = GC_START"
| "vm_kind Gc_marked = GC_END_MARK"
| "vm_kind Gc_swept = GC_END_SWEEP"

fun run_hook :: "host \<Rightarrow> vm_event \<Rightarrow> rbkit_logger \<Rightarrow> server \<Rightarrow> c_error + server" where
  "run_hook h (New_object gc_count tparg) arg s = newobj_i h gc_count tparg arg s"
| "run_hook h (Free_object obj) arg s = freeobj_i h obj arg s"
| "run_hook h Gc_started arg s = gc_start_i h arg s"
| "run_hook h Gc_marked arg s = gc_end_mark_i h arg s"
| "run_hook h Gc_swept arg s = gc_end_sweep_i h arg s"

text \<open>The VM calls every enabled tracepoint of the event's kind.\<close>

fun fire_hooks :: "host \<Rightarrow> vm_event \<Rightarrow> tracepoint list \<Rightarrow> server \<Rightarrow> c_error + server" where
  "fire_hooks h ev [] s = Inr s"
| "fire_hooks h ev (tp # tps) s =
     (if hook_enabled tp \<and> hook_kind tp = vm_kind ev
      then and_then (hook_logger tp s) (\<lambda>arg. and_then (run_hook h ev arg s) (fire_hooks h ev tps))
      else fire_hooks h ev tps s)"

definition fire :: "host \<Rightarrow> vm_event \<Rightarrow> server \<Rightarrow> c_error + server" where
  "fire h ev s = fire_hooks h ev (tracepoints s) s"

section \<open>Tracepoints\<close>

text \<open>\<open>rb_tracepoint_new\<close>: a disabled tracepoint at the end of the VM's list.\<close>

definition rb_tracepoint_new :: "trace_kind \<Rightarrow> nat \<Rightarrow> server \<Rightarrow> nat \<times> server" where
  "rb_tracepoint_new k data s =
     (length (tracepoints s),
      s\<lparr>tracepoints := tracepoints s @ [\<lparr>hook_kind = k, hook_data = data, hook_enabled = False\<rparr>]\<rparr>)"

definition set_tracepoint :: "bool \<Rightarrow> nat option \<Rightarrow> server \<Rightarrow> c_error + server" where
  "set_tracepoint on i s =
     (case i of
        None \<Rightarrow> Inl Null_dereference
      | Some i \<Rightarrow>
          if i < length (tracepoints s)
          then Inr (s\<lparr>tracepoints := (tracepoints s)[i := (tracepoints s ! i)\<lparr>hook_enabled := on\<rparr>]\<rparr>)
          else Inl Use_after_free)"

definition rb_tracepoint_enable :: "nat option \<Rightarrow> server \<Rightarrow> c_error + server" where
  "rb_tracepoint_enable = set_tracepoint True"

definition rb_tracepoint_disable :: "nat option \<Rightarrow> server \<Rightarrow> c_error + server" where
  "rb_tracepoint_disable = set_tracepoint False"

definition hook_at :: "rbkit_logger \<Rightarrow> nat \<Rightarrow> c_error + nat option" where
  "hook_at l i =
     (case lg_hooks l of
        None \<Rightarrow> Inl Uninitialised_read
      | Some hs \<Rightarrow> if i < length hs then Inr (Some (hs ! i)) else Inl Out_of_bounds)"

definition create_gc_hooks :: "server \<Rightarrow> c_error + server" where
  "create_gc_hooks s =
     (case logger s of
        None \<Rightarrow> Inl Null_dereference
      | Some l \<Rightarrow>
          let (a, s) = rb_tracepoint_new GC_START (logger_number s) s;
              (b, s) = rb_tracepoint_new GC_END_MARK (logger_number s) s;
              (c, s) = rb_tracepoint_new GC_END_SWEEP (logger_number s) s
          in Inr (s\<lparr>logger := Some (l\<lparr>lg_hooks := Some [a, b, c]\<rparr>)\<rparr>))"

section \<open>Starting the server\<close>

text \<open>\<open>sprintf\<close> of \<open>%d\<close>.\<close>

fun digits :: "nat \<Rightarrow> string" where
  "digits n = (if n < 10 then [char_of (48 + n)] else digits (n div 10) @ [char_of (48 + n mod 10)])"

declare digits.simps [simp del]

definition decimal :: "c_int \<Rightarrow> string" where
  "decimal i = (if sint i < 0 then CHR ''-'' # digits (nat (- sint i)) else digits (nat (sint i)))"

text \<open>Writing a string and its NUL into a \<open>char[n]\<close>.\<close>

definition sprintf_into :: "nat \<Rightarrow> string \<Rightarrow> c_error + string" where
  "sprintf_into n s = (if length s + 1 \<le> n then Inr s else Inl Out_of_bounds)"

definition endpoint :: "c_int \<Rightarrow> string" where
  "endpoint port = ''tcp://127.0.0.1:'' @ decimal port"

text \<open>
  A Ruby argument that is an integer or nil, \<open>FIX2INT\<close>, and the object a small integer is.
\<close>

definition FIX2INT :: "int option \<Rightarrow> c_error + c_int" where
  "FIX2INT v =
     (case v of
        None \<Rightarrow> Inl TypeError
      | Some i \<Rightarrow> if - (2 ^ 31) \<le> i \<and> i < 2 ^ 31 then Inr (of_int i) else Inl RangeError)"

definition VALUE_of :: "int option \<Rightarrow> VALUE" where
  "VALUE_of v = (case v of None \<Rightarrow> 8 | Some i \<Rightarrow> of_int (2 * i + 1))"

text \<open>What the ZeroMQ library returns to a start: the new handles, and whether a bind succeeds.\<close>

record zmq_results =
  new_context :: handle
  new_socket :: "zmq_type \<Rightarrow> handle"
  bind_succeeds :: "zmq_type \<Rightarrow> string \<Rightarrow> bool"

definition open_publisher :: "zmq_results \<Rightarrow> c_int \<Rightarrow> server \<Rightarrow> c_error + bool \<times> server" where
  "open_publisher z port s =
     (if port \<noteq> 0
      then and_then (sprintf_into 21 (endpoint port)) (\<lambda>zmq_endpoint.
        let sock = new_socket z ZMQ_PUB;
            s = log_zmq (Zmq_socket ZMQ_PUB sock) (s\<lparr>zmq_publisher := Some sock\<rparr>);
            s = log_zmq (Zmq_bind sock zmq_endpoint) s
        in Inr (bind_succeeds z ZMQ_PUB zmq_endpoint, s))
      else Inr (True, s))"

definition open_responder :: "zmq_results \<Rightarrow> c_int \<Rightarrow> server \<Rightarrow> c_error + bool \<times> server" where
  "open_responder z port s =
     (if port \<noteq> 0
      then and_then (sprintf_into 21 (endpoint port)) (\<lambda>zmq_request_endpoint.
        let sock = new_socket z ZMQ_REP;
            s = log_zmq (Zmq_socket ZMQ_REP sock) (s\<lparr>zmq_response_socket := Some sock\<rparr>);
            s = log_zmq (Zmq_bind sock zmq_request_endpoint) s
        in if bind_succeeds z ZMQ_REP zmq_request_endpoint
           then Inr (True, s\<lparr>poll_item := Some sock\<rparr>) else Inr (False, s))
      else Inr (True, s))"

text \<open>After the sockets: the list, the logger, the five tracepoints.\<close>

definition start_tracker :: "server \<Rightarrow> c_error + server" where
  "start_tracker s =
     (let s = s\<lparr>messages := message_list_new (messages s)\<rparr>;
          s = get_trace_logger s;
          (a, s) = rb_tracepoint_new NEWOBJ (logger_number s) s;
          (b, s) = rb_tracepoint_new FREEOBJ (logger_number s) s;
          s = s\<lparr>logger := map_option
                (\<lambda>l. l\<lparr>lg_newobj_trace := Some a, lg_freeobj_trace := Some b\<rparr>) (logger s)\<rparr>
      in create_gc_hooks s)"

text \<open>
  The result is what the Ruby method returns. The second test compares the Ruby object
  with 0, not the port. A failed bind returns at once and leaves the sockets open.
\<close>

definition start_stat_server ::
  "zmq_results \<Rightarrow> int option \<Rightarrow> int option \<Rightarrow> server \<Rightarrow> c_error + bool \<times> server" where
  "start_stat_server z pub_port request_port s =
     (let s = s\<lparr>server_instance := True\<rparr>
      in and_then (FIX2INT pub_port) (\<lambda>pub_port_int.
         and_then (FIX2INT request_port) (\<lambda>req_port_int.
         let s = (if pub_port_int \<noteq> 0 \<or> VALUE_of request_port \<noteq> 0
                  then log_zmq (Zmq_ctx_new (new_context z)) (s\<lparr>zmq_context := Some (new_context z)\<rparr>)
                  else s)
         in and_then (open_publisher z pub_port_int s) (\<lambda>(bound, s).
            if \<not> bound then Inr (False, s)
            else and_then (open_responder z req_port_int s) (\<lambda>(bound, s).
            if \<not> bound then Inr (False, s)
            else and_then (start_tracker s) (\<lambda>s. Inr (True, s)))))))"

section \<open>Tracing\<close>

text \<open>A logger pointer that is NULL is dereferenced.\<close>

definition the_logger :: "server \<Rightarrow> c_error + rbkit_logger" where
  "the_logger s = (case logger s of None \<Rightarrow> Inl Null_dereference | Some l \<Rightarrow> Inr l)"

definition set_enabled :: "bool \<Rightarrow> server \<Rightarrow> server" where
  "set_enabled b s = s\<lparr>logger := map_option (\<lambda>l. l\<lparr>lg_enabled := b\<rparr>) (logger s)\<rparr>"

definition start_stat_tracing :: "server \<Rightarrow> c_error + server" where
  "start_stat_tracing s =
     and_then (the_logger s) (\<lambda>l.
     if lg_enabled l then Inr s
     else
       and_then (rb_tracepoint_enable (lg_newobj_trace l) s) (\<lambda>s.
       and_then (rb_tracepoint_enable (lg_freeobj_trace l) s) (\<lambda>s.
       and_then (and_then (hook_at l 0) (\<lambda>i. rb_tracepoint_enable i s)) (\<lambda>s.
       and_then (and_then (hook_at l 1) (\<lambda>i. rb_tracepoint_enable i s)) (\<lambda>s.
       and_then (and_then (hook_at l 2) (\<lambda>i. rb_tracepoint_enable i s)) (\<lambda>s.
       Inr (set_enabled True s)))))))"

definition stop_stat_tracing :: "server \<Rightarrow> c_error + server" where
  "stop_stat_tracing s =
     and_then (the_logger s) (\<lambda>l.
     and_then (hook_at l 0) (\<lambda>hook.
     and_then
       (if hook \<noteq> None
        then and_then (and_then (hook_at l 0) (\<lambda>i. rb_tracepoint_disable i s)) (\<lambda>s.
             and_then (and_then (hook_at l 1) (\<lambda>i. rb_tracepoint_disable i s)) (\<lambda>s.
             and_then (hook_at l 2) (\<lambda>i. rb_tracepoint_disable i s)))
        else Inr s) (\<lambda>s.
     and_then
       (if lg_newobj_trace l \<noteq> None
        then and_then (rb_tracepoint_disable (lg_newobj_trace l) s) (\<lambda>s.
             rb_tracepoint_disable (lg_freeobj_trace l) s)
        else Inr s) (\<lambda>s.
     Inr (set_enabled False s)))))"

section \<open>CPU profiling\<close>

text \<open>Packing into a buffer of its own, then sending that; the logger's buffer is not touched.\<close>

definition pack_fresh :: "host \<Rightarrow> rbkit_event \<Rightarrow> server \<Rightarrow> c_error + sbuffer \<times> rbkit_event \<times> server" where
  "pack_fresh h ev s =
     and_then (pack_event (host_enc h) (host_clock h) (strings_of s) (message_counter s) ev)
       (\<lambda>(bytes, ev, counter). Inr (bytes, ev, s\<lparr>message_counter := counter\<rparr>))"

definition queue_cpu_sample_for_sending :: "host \<Rightarrow> rbkit_cpu_sample \<Rightarrow> server \<Rightarrow> c_error + server" where
  "queue_cpu_sample_for_sending h sample s =
     and_then (pack_fresh h (new_rbkit_cpu_sample_event sample) s)
       (\<lambda>(buffer, _, s). send_message h buffer s)"

definition sampling_job_handler ::
  "host \<Rightarrow> (nat \<Rightarrow> nat \<Rightarrow> profile_frame list) \<Rightarrow> ulong \<Rightarrow> server \<Rightarrow> c_error + server" where
  "sampling_job_handler h frames thread_id s =
     and_then (sampling_job_sample frames thread_id) (\<lambda>sample.
     if queue_func_set (cpu_profiler s) then queue_cpu_sample_for_sending h sample s
     else Inl Null_dereference)"

definition set_sampling :: "bool \<Rightarrow> server \<Rightarrow> server" where
  "set_sampling b s = s\<lparr>logger := map_option (\<lambda>l. l\<lparr>lg_sampling_profiler_enabled := b\<rparr>) (logger s)\<rparr>"

text \<open>The clock type is a symbol (by its name) or some other object (\<open>None\<close>).\<close>

definition start_sampling_profiler :: "string option \<Rightarrow> int option \<Rightarrow> server \<Rightarrow> c_error + server" where
  "start_sampling_profiler clock interval s =
     and_then (the_logger s) (\<lambda>l.
     if lg_sampling_profiler_enabled l then Inr s
     else case clock of
            None \<Rightarrow> Inl ArgumentError
          | Some symbol \<Rightarrow>
              and_then (FIX2INT interval) (\<lambda>usec.
              Inr (set_sampling True
                (s\<lparr>cpu_profiler := rbkit_install_sampling_profiler (symbol = ''wall'') usec (cpu_profiler s)\<rparr>))))"

definition stop_sampling_profiler :: "server \<Rightarrow> c_error + server" where
  "stop_sampling_profiler s =
     and_then (the_logger s) (\<lambda>l.
     if \<not> lg_sampling_profiler_enabled l then Inr s
     else Inr (set_sampling False
            (s\<lparr>cpu_profiler := rbkit_uninstall_sampling_profiler (cpu_profiler s)\<rparr>)))"

text \<open>A timer that runs is loaded again, and asks for a sample if its signal is handled.\<close>

definition timer_expires :: "host \<Rightarrow> itimer \<Rightarrow> server \<Rightarrow> server" where
  "timer_expires h w s =
     (let p = cpu_profiler s
      in if \<not> armed p w then s
         else s\<lparr>cpu_profiler := expire w p,
                jobs := (if dispositions p (timer_signal w) = Handler
                         then signal_handler (job_capacity h) (jobs s) else jobs s)\<rparr>)"

section \<open>Stopping the server\<close>

text \<open>
  \<open>st_foreach\<close> with \<open>free_keys_i\<close> over the string table: the string that is the key of an entry
  is released. The records of the object table are released the same way with
  \<open>free_values_i\<close>. Then both tables are cleared.
\<close>

definition free_keys :: "str_table \<Rightarrow> str_table" where
  "free_keys tbl = tbl\<lparr>heap := (\<lambda>p.
     case heap tbl p of
       None \<Rightarrow> None
     | Some s \<Rightarrow> (case entries tbl s of
                    None \<Rightarrow> Some s
                  | Some (q, n) \<Rightarrow> if q = p then None else Some s))\<rparr>"

definition clear_tables :: "rbkit_logger \<Rightarrow> rbkit_logger" where
  "clear_tables l =
     l\<lparr>lg_object_table := (\<lambda>_. None),
       lg_str_table := (free_keys (lg_str_table l))\<lparr>entries := (\<lambda>_. None)\<rparr>\<rparr>"

text \<open>The sockets are closed; the pointers to them keep their values.\<close>

definition stop_stat_server :: "server \<Rightarrow> c_error + server" where
  "stop_stat_server s =
     and_then (the_logger s) (\<lambda>l.
     and_then (if lg_enabled l then stop_stat_tracing s else Inr s) (\<lambda>s.
     and_then (message_list_destroy (messages s)) (\<lambda>m.
     let s = s\<lparr>messages := m, logger := map_option clear_tables (logger s)\<rparr>;
         s = log_zmq (Zmq_close (zmq_publisher s)) s;
         s = log_zmq (Zmq_close (zmq_response_socket s)) s;
         s = log_zmq (Zmq_ctx_destroy (zmq_context s)) s
     in Inr (s\<lparr>logger := None\<rparr>))))"

section \<open>Hashes, dumps, status, requests\<close>

text \<open>The hash is a Hash; the event type comes from Ruby as it is. The result is \<open>false\<close> or nil.\<close>

definition send_hash_as_event :: "host \<Rightarrow> rb_hash \<Rightarrow> int option \<Rightarrow> server \<Rightarrow> c_error + bool option \<times> server" where
  "send_hash_as_event h hash_object type_arg s =
     (if logger s = None then Inr (Some False, s)
      else and_then (FIX2INT type_arg) (\<lambda>t.
           and_then (pack_fresh h (new_rbkit_hash_event t hash_object) s) (\<lambda>(buffer, _, s).
           and_then (send_message h buffer s) (\<lambda>s. Inr (None, s)))))"

definition dump_packing :: "rbkit_event \<Rightarrow> bool" where
  "dump_packing ev =
     (case ev of Object_space_dump_event _ d \<Rightarrow> ev_packed_objects d < ev_object_count d | _ \<Rightarrow> False)"

text \<open>
  One round of the loop packs a batch and sends it. The loop stops at the first error too.
\<close>

definition dump_round :: "host \<Rightarrow> rbkit_event \<times> server \<Rightarrow> c_error + rbkit_event \<times> server" where
  "dump_round h = (\<lambda>(ev, s).
     and_then (pack_fresh h ev s) (\<lambda>(buffer, ev, s).
     and_then (send_message h buffer s) (\<lambda>s. Inr (ev, s))))"

definition dump_loop :: "host \<Rightarrow> rbkit_event \<Rightarrow> server \<Rightarrow> c_error + rbkit_event \<times> server" where
  "dump_loop h ev s =
     (case while_option (\<lambda>r. case r of Inl e \<Rightarrow> False | Inr (ev, s) \<Rightarrow> dump_packing ev)
             (\<lambda>r. and_then r (dump_round h)) (Inr (ev, s)) of
        None \<Rightarrow> Inl No_return
      | Some r \<Rightarrow> r)"

definition send_objectspace_dump :: "host \<Rightarrow> heap_page list \<Rightarrow> server \<Rightarrow> c_error + server" where
  "send_objectspace_dump h heap_pages s =
     and_then (the_logger s) (\<lambda>l.
     and_then (get_object_dump (host_vm h) heap_pages (lg_object_table l)) (\<lambda>dump.
     and_then (new_rbkit_object_space_dump_event (correlation_id s) dump) (\<lambda>(d, correlation_id).
     and_then (dump_loop h (Object_space_dump_event (event_code object_space_dump) d)
                 (s\<lparr>correlation_id := correlation_id\<rparr>)) (\<lambda>(ev, s).
     Inr s))))"

text \<open>What the status asks of Ruby; the last two are instance variables, by their \<open>to_s\<close>.\<close>

record ruby_process =
  rbkit_version :: string
  process_argv0 :: string
  process_pid :: "64 word"
  working_directory :: string
  ivar_clock_type :: string
  ivar_cpu_profiling_mode :: string

text \<open>
  The hash, its keys and values are Ruby objects: while tracing is on, each is an event of
  the VM that runs \<open>newobj_i\<close>. As no event changes any of what is read here, these events
  are not part of the function but steps of their own before the call.
\<close>

definition rbkit_status_as_hash :: "ruby_process \<Rightarrow> server \<Rightarrow> rb_hash" where
  "rbkit_status_as_hash p s =
     (let object_trace_enabled =
            (case logger s of Some l \<Rightarrow> if lg_enabled l then 1 else 0 | None \<Rightarrow> 0);
          cpu_profiling_enabled =
            (case logger s of Some l \<Rightarrow> if lg_sampling_profiler_enabled l then 1 else 0 | None \<Rightarrow> 0)
      in [(T_OBJECT ''rbkit_server_version'', T_OBJECT (rbkit_version p)),
          (T_OBJECT ''rbkit_protocol_version'', T_OBJECT rbkit_protocol_version),
          (T_OBJECT ''process_name'', T_OBJECT (process_argv0 p)),
          (T_OBJECT ''pwd'', T_OBJECT (working_directory p)),
          (T_OBJECT ''pid'', T_FIXNUM (process_pid p)),
          (T_OBJECT ''object_trace_enabled'', T_FIXNUM object_trace_enabled),
          (T_OBJECT ''cpu_profiling_enabled'', T_FIXNUM cpu_profiling_enabled),
          (T_OBJECT ''clock_type'', T_OBJECT (ivar_clock_type p)),
          (T_OBJECT ''cpu_profiling_mode'', T_OBJECT (ivar_cpu_profiling_mode p))])"

definition send_handshake_response ::
  "host \<Rightarrow> ruby_process \<Rightarrow> ruby_code \<Rightarrow> server \<Rightarrow> c_error + bool \<times> server" where
  "send_handshake_response h p during s =
     and_then (pack_fresh h (new_rbkit_hash_event (event_code handshake) (rbkit_status_as_hash p s)) s)
       (\<lambda>(buffer, _, s).
     if 0 < length buffer then respond_with_message during buffer s else Inr (False, s))"

definition bytes_of :: "string \<Rightarrow> byte list" where
  "bytes_of = map (\<lambda>c. of_nat (of_char c))"

definition send_command_ack :: "ruby_code \<Rightarrow> server \<Rightarrow> c_error + bool \<times> server" where
  "send_command_ack during s = respond_with_message during (bytes_of ''ok'') s"

text \<open>The received frame, or \<open>None\<close> when \<open>zmq_msg_recv\<close> fails; a NUL is put behind its bytes.\<close>

definition tracer_string_recv :: "handle option \<Rightarrow> string option \<Rightarrow> server \<Rightarrow> c_error + string \<times> server" where
  "tracer_string_recv socket frame s =
     (case frame of
        None \<Rightarrow> Inl Assertion_failed
      | Some bytes \<Rightarrow> Inr (bytes @ [CHR 0x00], log_zmq (Zmq_msg_recv socket) s))"

text \<open>\<open>revents\<close> is what \<open>zmq_poll\<close> reports; the source joins it to \<open>ZMQ_POLLIN\<close> (1) with \<open>&&\<close>.\<close>

definition poll_for_request ::
  "int \<Rightarrow> string option \<Rightarrow> server \<Rightarrow> c_error + string option \<times> server" where
  "poll_for_request revents frame s =
     (if revents \<noteq> 0 \<and> (1::int) \<noteq> 0
      then and_then (tracer_string_recv (zmq_response_socket s) frame s) (\<lambda>(message, s).
           Inr (Some (c_str message), s))
      else Inr (None, s))"

section \<open>Test mode\<close>

definition enable_test_mode :: "server \<Rightarrow> server" where
  "enable_test_mode s = s\<lparr>test_mode_enabled := True\<rparr>"

definition disable_test_mode :: "server \<Rightarrow> server" where
  "disable_test_mode s = s\<lparr>test_mode_enabled := False\<rparr>"

text \<open>
  \<open>rbkit_test_helper.c\<close>: the collection as a Ruby string, or nil when nothing is queued.
  \<open>during\<close> is what the allocation of the string sets off, before the queue is cleared.
\<close>

definition get_queued_messages :: "host \<Rightarrow> ruby_code \<Rightarrow> server \<Rightarrow> c_error + sbuffer option \<times> server" where
  "get_queued_messages h during s =
     and_then (get_event_collection_message (host_enc h) (host_clock h) (strings_of s)
                 (message_counter s) [] (messages s)) (\<lambda>(sbuf, counter).
     let s = s\<lparr>message_counter := counter\<rparr>
     in if 0 < length sbuf
        then and_then (during s) (\<lambda>(_, s).
             Inr (Some sbuf, s\<lparr>messages := message_list_clear (messages s)\<rparr>))
        else Inr (None, s))"

section \<open>Postponed jobs\<close>

text \<open>
  The VM takes the first pending job and runs it: the stack is what the VM reports at
  that moment, \<open>during\<close> the Ruby code a publication runs.
\<close>

definition run_job :: "host \<Rightarrow> (nat \<Rightarrow> nat \<Rightarrow> profile_frame list) \<Rightarrow> ulong \<Rightarrow> ruby_code
    \<Rightarrow> server \<Rightarrow> c_error + server" where
  "run_job h frames thread_id during s =
     (case jobs s of
        [] \<Rightarrow> Inr s
      | j # js \<Rightarrow>
          let s = s\<lparr>jobs := js\<rparr>
          in case j of
               Sampling_job \<Rightarrow> sampling_job_handler h frames thread_id s
             | Publish_job \<Rightarrow> trigger_publish_callback h during s)"

end
