(* ===== verification/Server_Invariant.thy ===== *)
theory Server_Invariant
  imports Rbkit_Server
begin

text \<open>
  What stays true of the server between the operations: a running server owns one logger
  whose tables are consistent, whose five tracepoints are the only ones that can be
  enabled and carry that logger, and a live list of messages; a stopped one has no
  enabled tracepoint. The operations keep this, and never leave it by an error.
\<close>

section \<open>The queued messages as values\<close>

text \<open>The list holds packed messages whose calls spell out the frames \<open>vs\<close>.\<close>

definition holds :: "(mp_call \<Rightarrow> byte list) \<Rightarrow> mval list \<Rightarrow> message_list \<Rightarrow> bool" where
  "holds enc vs m \<longleftrightarrow>
     (\<exists>css. queued (map (emit enc) css) m \<and> list_all2 (\<lambda>cs v. packs cs [v]) css vs)"

definition queued_bytes :: "server \<Rightarrow> nat" where
  "queued_bytes s = unat (used_memsize (messages s))"

lemma holds_new: "holds enc [] (message_list_new m)"
  using queued_new [of m] by (auto simp: holds_def)

lemma holds_clear: "holds enc vs m \<Longrightarrow> holds enc [] (message_list_clear m)"
  using queued_clear by (fastforce simp: holds_def)

lemma holds_count: "holds enc vs m \<Longrightarrow> queued_message_count m = of_nat (length vs)"
  using aggregator.count_holds by (fastforce simp: holds_def dest: list_all2_lengthD)

lemma packs_css: "list_all2 (\<lambda>cs v. packs cs [v]) css vs \<Longrightarrow> packs (concat css) vs"
proof (induction rule: list_all2_induct)
  case Nil
  then show ?case by (simp add: packs_def)
next
  case (Cons cs css v vs)
  then show ?case using packs_append [of cs "[v]" "concat css" vs] by simp
qed

lemma emit_concat: "concat (map (emit enc) css) = emit enc (concat css)"
  by (induction css) simp_all

text \<open>Queueing one more packed frame.\<close>

lemma queue_holds:
  assumes h: "holds enc vs m" and cs: "packs cs [v]"
    and room: "unat (used_memsize m) + length (emit enc cs) \<le> 2 ^ 63"
  shows "\<exists>m'. queue_message (emit enc cs) m = Inr m' \<and> holds enc (vs @ [v]) m'
    \<and> unat (used_memsize m') = unat (used_memsize m) + length (emit enc cs)"
proof -
  from h obtain css where q: "queued (map (emit enc) css) m"
    and css: "list_all2 (\<lambda>cs v. packs cs [v]) css vs" by (auto simp: holds_def)
  have u: "unat (used_memsize m) = length (concat (map (emit enc) css))"
    using q by (simp add: queued_def)
  with room queue_message_queued [OF q, of "emit enc cs"] obtain m' where
    m': "queue_message (emit enc cs) m = Inr m'" "queued (map (emit enc) (css @ [cs])) m'" by auto
  have "list_all2 (\<lambda>cs v. packs cs [v]) (css @ [cs]) (vs @ [v])"
    using css cs by (simp add: list_all2_appendI)
  with m' have "holds enc (vs @ [v]) m'" unfolding holds_def by blast
  moreover have "unat (used_memsize m') = unat (used_memsize m) + length (emit enc cs)"
    using m'(2) u by (simp add: queued_def)
  ultimately show ?thesis using m'(1) by blast
qed

text \<open>The collection built from the list.\<close>

lemma collection_holds:
  assumes codec: "msgpack_codec enc dec" and h: "holds enc vs m"
    and ne: "vs \<noteq> []" and few: "length vs < 2 ^ 32"
  shows "\<exists>bytes. get_event_collection_message enc clk tbl counter sbuf m = Inr (bytes, counter + 1)
    \<and> bytes \<noteq> [] \<and> unpack dec bytes = Some (collection_value clk counter vs)"
proof -
  from h obtain css where q: "queued (map (emit enc) css) m"
    and css: "list_all2 (\<lambda>cs v. packs cs [v]) css vs" by (auto simp: holds_def)
  then obtain b where b: "message_array m = Array b" "holds_bytes b (emit enc (concat css))"
    and sz: "unat (used_memsize m) = length (emit enc (concat css))"
    and n: "no_of_messages m = of_nat (length css)"
    by (auto simp: queued_def emit_concat)
  have u: "unat (no_of_messages m) = length vs"
    using n few list_all2_lengthD [OF css] by (simp add: unat_of_nat)
  with ne have "no_of_messages m \<noteq> 0" by auto
  moreover obtain calls where p: "pack_event enc clk tbl counter
      (new_rbkit_event_collection_event (Some b) (used_memsize m) (no_of_messages m))
      = Inr (emit enc calls,
          new_rbkit_event_collection_event (Some b) (used_memsize m) (no_of_messages m), counter + 1)"
    "packs calls [collection_value clk counter vs]"
    using pack_collection_calls [OF b(2) sz packs_css [OF css] u few, of clk tbl counter] by blast
  moreover have up: "unpack dec (emit enc calls) = Some (collection_value clk counter vs)"
    using unpack_packs [OF codec p(2)] .
  moreover have "emit enc calls \<noteq> []"
    using up by (auto simp: unpack_def)
  ultimately show ?thesis
    using b(1) by (auto simp: get_event_collection_message_def array_block_def)
qed

section \<open>Running and stopped\<close>

definition hook_kinds :: "trace_kind list" where
  "hook_kinds = [NEWOBJ, FREEOBJ, GC_START, GC_END_MARK, GC_END_SWEEP]"

definition five_hooks :: "nat \<Rightarrow> bool \<Rightarrow> tracepoint list" where
  "five_hooks n on = map (\<lambda>k. \<lparr>hook_kind = k, hook_data = n, hook_enabled = on\<rparr>) hook_kinds"

definition silent :: "tracepoint list \<Rightarrow> bool" where
  "silent tps \<longleftrightarrow> list_all (\<lambda>tp. \<not> hook_enabled tp) tps"

text \<open>The tracepoints before those of the current logger are those of earlier ones.\<close>

definition hooks_ok :: "rbkit_logger \<Rightarrow> server \<Rightarrow> bool" where
  "hooks_ok l s \<longleftrightarrow>
     (\<exists>old. silent old \<and> tracepoints s = old @ five_hooks (logger_number s) (lg_enabled l)
        \<and> lg_newobj_trace l = Some (length old) \<and> lg_freeobj_trace l = Some (length old + 1)
        \<and> lg_hooks l = Some [length old + 2, length old + 3, length old + 4])"

definition running :: "(mp_call \<Rightarrow> byte list) \<Rightarrow> mval list \<Rightarrow> rbkit_logger \<Rightarrow> server \<Rightarrow> bool" where
  "running enc vs l s \<longleftrightarrow>
     logger s = Some l \<and> alloc_inv (lg_str_table l) (lg_object_table l) \<and> hooks_ok l s
   \<and> holds enc vs (messages s)"

definition stopped :: "server \<Rightarrow> bool" where
  "stopped s \<longleftrightarrow> logger s = None \<and> silent (tracepoints s)
     \<and> (\<forall>b. message_array (messages s) \<noteq> Array b) \<and> total_capacity (messages s) = 0
     \<and> used_memsize (messages s) = 0 \<and> no_of_messages (messages s) = 0"

lemma stopped_init: "stopped server_init"
  by (simp add: stopped_def server_init_def silent_def message_list_statics_def)

lemmas tracker_defs = rb_tracepoint_new_def create_gc_hooks_def get_trace_logger_def
  five_hooks_def hook_kinds_def

lemma start_tracker_running:
  assumes "stopped s"
  shows "\<exists>s' l. start_tracker s = Inr s' \<and> running enc [] l s' \<and> \<not> lg_enabled l
    \<and> \<not> lg_sampling_profiler_enabled l \<and> lg_object_table l = (\<lambda>_. None)
    \<and> zmq_publisher s' = zmq_publisher s \<and> zmq_response_socket s' = zmq_response_socket s
    \<and> zmq_log s' = zmq_log s \<and> jobs s' = jobs s \<and> published s' = published s
    \<and> message_counter s' = message_counter s \<and> cpu_profiler s' = cpu_profiler s
    \<and> queued_bytes s' = 0 \<and> server_instance s' = server_instance s
    \<and> publish_callback s' = publish_callback s \<and> correlation_id s' = correlation_id s
    \<and> test_mode_enabled s' = test_mode_enabled s"
  using assms holds_new [of enc "messages s"]
  by (auto simp: start_tracker_def tracker_defs stopped_def running_def hooks_ok_def Let_def
      queued_bytes_def message_list_new_def intro!: exI [of _ "tracepoints s"])

subsection \<open>Turning the tracepoints on and off\<close>

lemma set_tracepoint_at:
  "tracepoints s = old @ tp # new \<Longrightarrow> i = length old \<Longrightarrow>
     set_tracepoint on (Some i) s
       = Inr (s\<lparr>tracepoints := old @ tp\<lparr>hook_enabled := on\<rparr> # new\<rparr>)"
  by (simp add: set_tracepoint_def nth_append list_update_append)

lemma set_five:
  assumes "tracepoints s = old @ five_hooks n b" and "i = length old"
  shows "and_then (set_tracepoint on (Some i) s) (\<lambda>s.
     and_then (set_tracepoint on (Some (i + 1)) s) (\<lambda>s.
     and_then (set_tracepoint on (Some (i + 2)) s) (\<lambda>s.
     and_then (set_tracepoint on (Some (i + 3)) s) (\<lambda>s.
     and_then (set_tracepoint on (Some (i + 4)) s) k))))
   = k (s\<lparr>tracepoints := old @ five_hooks n on\<rparr>)"
proof -
  let ?tp = "\<lambda>k on. \<lparr>hook_kind = k, hook_data = n, hook_enabled = on\<rparr>"
  have 1: "set_tracepoint on (Some i) s = Inr (s\<lparr>tracepoints := old @
      [?tp NEWOBJ on, ?tp FREEOBJ b, ?tp GC_START b, ?tp GC_END_MARK b, ?tp GC_END_SWEEP b]\<rparr>)"
    using assms by (simp add: set_tracepoint_at five_hooks_def hook_kinds_def)
  show ?thesis
    using assms(2) unfolding 1 and_then_Inr five_hooks_def hook_kinds_def
    by (simp add: set_tracepoint_def nth_append list_update_append numeral_eq_Suc)
qed

lemma start_stat_tracing_running:
  assumes r: "running enc vs l s"
  shows "\<exists>s'. start_stat_tracing s = Inr s' \<and> running enc vs (l\<lparr>lg_enabled := True\<rparr>) s'
    \<and> s' = s\<lparr>tracepoints := tracepoints s', logger := logger s'\<rparr>"
proof (cases "lg_enabled l")
  case True
  then have l: "l\<lparr>lg_enabled := True\<rparr> = l" by simp
  show ?thesis unfolding l using True r by (simp add: start_stat_tracing_def the_logger_def running_def)
next
  case False
  from r obtain old where old: "silent old" "tracepoints s = old @ five_hooks (logger_number s) (lg_enabled l)"
    "lg_newobj_trace l = Some (length old)" "lg_freeobj_trace l = Some (length old + 1)"
    "lg_hooks l = Some [length old + 2, length old + 3, length old + 4]"
    and l: "logger s = Some l" by (auto simp: running_def hooks_ok_def)
  let ?s = "set_enabled True (s\<lparr>tracepoints := old @ five_hooks (logger_number s) True\<rparr>)"
  have "start_stat_tracing s = Inr ?s"
    using False old l set_five [OF old(2) refl, of True "\<lambda>s. Inr (set_enabled True s)"]
    by (simp add: start_stat_tracing_def the_logger_def rb_tracepoint_enable_def hook_at_def)
  moreover have "running enc vs (l\<lparr>lg_enabled := True\<rparr>) ?s"
    using r old l by (auto simp: running_def hooks_ok_def set_enabled_def intro!: exI [of _ old])
  ultimately show ?thesis by (simp add: set_enabled_def)
qed

lemma stop_stat_tracing_running:
  assumes r: "running enc vs l s"
  shows "\<exists>s'. stop_stat_tracing s = Inr s' \<and> running enc vs (l\<lparr>lg_enabled := False\<rparr>) s'
    \<and> s' = s\<lparr>tracepoints := tracepoints s', logger := logger s'\<rparr>"
proof -
  from r obtain old where old: "silent old" "tracepoints s = old @ five_hooks (logger_number s) (lg_enabled l)"
    "lg_newobj_trace l = Some (length old)" "lg_freeobj_trace l = Some (length old + 1)"
    "lg_hooks l = Some [length old + 2, length old + 3, length old + 4]"
    and l: "logger s = Some l" by (auto simp: running_def hooks_ok_def)
  let ?n = "logger_number s"
  let ?s = "set_enabled False (s\<lparr>tracepoints := old @ five_hooks ?n False\<rparr>)"
  have "stop_stat_tracing s = Inr ?s"
    using old l
    by (simp add: stop_stat_tracing_def the_logger_def rb_tracepoint_disable_def hook_at_def
      set_tracepoint_def five_hooks_def hook_kinds_def nth_append list_update_append numeral_eq_Suc)
  moreover have "running enc vs (l\<lparr>lg_enabled := False\<rparr>) ?s"
    using r old l by (auto simp: running_def hooks_ok_def set_enabled_def intro!: exI [of _ old])
  ultimately show ?thesis by (simp add: set_enabled_def)
qed

lemma silent_five_off [simp]: "silent (old @ five_hooks n False) \<longleftrightarrow> silent old"
  by (simp add: silent_def five_hooks_def hook_kinds_def)

lemma running_off_silent: "running enc vs l s \<Longrightarrow> \<not> lg_enabled l \<Longrightarrow> silent (tracepoints s)"
  by (auto simp: running_def hooks_ok_def)

lemma stop_stat_server_running:
  assumes r: "running enc vs l s"
  shows "\<exists>s'. stop_stat_server s = Inr s' \<and> stopped s' \<and> message_array (messages s') = Dangling
    \<and> total_capacity (messages s') = 0 \<and> used_memsize (messages s') = 0
    \<and> no_of_messages (messages s') = 0
    \<and> zmq_publisher s' = zmq_publisher s \<and> zmq_response_socket s' = zmq_response_socket s
    \<and> jobs s' = jobs s \<and> cpu_profiler s' = cpu_profiler s \<and> published s' = published s
    \<and> zmq_log s' = zmq_log s @ [Zmq_close (zmq_publisher s), Zmq_close (zmq_response_socket s),
        Zmq_ctx_destroy (zmq_context s)]"
proof -
  obtain s1 l1 where s1: "(if lg_enabled l then stop_stat_tracing s else Inr s) = Inr s1"
    "running enc vs l1 s1" "\<not> lg_enabled l1" "s1 = s\<lparr>tracepoints := tracepoints s1, logger := logger s1\<rparr>"
  proof (cases "lg_enabled l")
    case True
    from stop_stat_tracing_running [OF r] obtain s' where "stop_stat_tracing s = Inr s'"
      "running enc vs (l\<lparr>lg_enabled := False\<rparr>) s'"
      "s' = s\<lparr>tracepoints := tracepoints s', logger := logger s'\<rparr>" by blast
    with True that [of s' "l\<lparr>lg_enabled := False\<rparr>"] show ?thesis by simp
  next
    case False
    with r that [of s l] show ?thesis by simp
  qed
  from s1(2) obtain b where b: "message_array (messages s1) = Array b"
    by (auto simp: running_def holds_def queued_def)
  have fields: "zmq_publisher s1 = zmq_publisher s" "zmq_response_socket s1 = zmq_response_socket s"
    "zmq_context s1 = zmq_context s" "jobs s1 = jobs s" "cpu_profiler s1 = cpu_profiler s"
    "published s1 = published s" "zmq_log s1 = zmq_log s"
    by (subst s1(4); simp)+
  have "the_logger s = Inr l" using r by (simp add: the_logger_def running_def)
  with s1(1) b fields running_off_silent [OF s1(2,3)] show ?thesis
    by (auto simp: stop_stat_server_def message_list_destroy_def stopped_def log_zmq_def Let_def)
qed

text \<open>The tables a stop clears hold no string any more: all of them were released.\<close>

lemma clear_tables_frees:
  assumes "running enc vs l s"
  shows "heap (lg_str_table (clear_tables l)) = (\<lambda>_. None)"
proof -
  from assms have h: "held (object_refs (lg_object_table l)) (lg_str_table l)"
    by (simp add: running_def alloc_inv_def)
  have "\<exists>n. entries (lg_str_table l) t = Some (p, n)" if p: "heap (lg_str_table l) p = Some t" for p t
  proof -
    from held_heap [OF h p] held_ptr [OF h] obtain u n where
      u: "entries (lg_str_table l) u = Some (p, n)" by blast
    with held_entry [OF h u] p show ?thesis by auto
  qed
  then show ?thesis
    by (fastforce simp: clear_tables_def free_keys_def fun_eq_iff split: option.splits)
qed

section \<open>Events of the VM\<close>

text \<open>When a message is sent, the queue grows by it; the 400th asks for a publication.\<close>

definition jobs_after :: "host \<Rightarrow> nat \<Rightarrow> server \<Rightarrow> job list" where
  "jobs_after h n s =
     (if of_nat (n + 1) = MESSAGE_BATCH_SIZE \<and> \<not> test_mode_enabled s
      then postponed_job_register (job_capacity h) Publish_job (jobs s) else jobs s)"

lemma send_message_holds:
  assumes h: "holds (host_enc h) vs (messages s)" and cs: "packs cs [v]"
    and room: "queued_bytes s + length (emit (host_enc h) cs) \<le> 2 ^ 63"
  shows "\<exists>s'. send_message h (emit (host_enc h) cs) s = Inr s'
    \<and> holds (host_enc h) (vs @ [v]) (messages s')
    \<and> queued_bytes s' = queued_bytes s + length (emit (host_enc h) cs)
    \<and> s' = s\<lparr>messages := messages s', jobs := jobs s'\<rparr>
    \<and> jobs s' = jobs_after h (length vs) s"
proof -
  from queue_holds [OF h cs] room obtain m where
    m: "queue_message (emit (host_enc h) cs) (messages s) = Inr m" "holds (host_enc h) (vs @ [v]) m"
      "unat (used_memsize m) = queued_bytes s + length (emit (host_enc h) cs)"
    by (auto simp: queued_bytes_def)
  from holds_count [OF m(2)] have "queued_message_count m = of_nat (length vs + 1)" by simp
  with m show ?thesis
    by (simp add: send_message_def send_messages_def Let_def queued_bytes_def jobs_after_def)
qed

definition class_name_of :: "host \<Rightarrow> VALUE \<Rightarrow> string option" where
  "class_name_of h obj =
     (if dumpable (host_vm h) obj
      then Some (class2name (host_vm h) (basic_class (host_vm h) obj)) else None)"

text \<open>The calls an event of the VM is packed with, and the frame the protocol gives it.\<close>

fun vm_calls :: "host \<Rightarrow> vm_event \<Rightarrow> mp_call list" where
  "vm_calls h (New_object gc_count tparg) =
     pack_obj_created_event (host_clock h) (event_code obj_created)
       (obj_id (host_vm h) (tp_object tparg)) (class_name_of h (tp_object tparg))"
| "vm_calls h (Free_object obj) =
     pack_obj_destroyed_event (host_clock h) (event_code obj_destroyed) (obj_id (host_vm h) obj)"
| "vm_calls h Gc_started = pack_event_header_only (host_clock h) (event_code gc_start)"
| "vm_calls h Gc_marked = pack_event_header_only (host_clock h) (event_code gc_end_m)"
| "vm_calls h Gc_swept = pack_event_header_only (host_clock h) (event_code gc_end_s)"

fun vm_frame :: "host \<Rightarrow> vm_event \<Rightarrow> mval" where
  "vm_frame h (New_object gc_count tparg) =
     frame_value (host_clock h) (event_code obj_created) [(rbkit_message_field_payload, record_value
       [(rbkit_message_field_object_id, VInt (uint (obj_id (host_vm h) (tp_object tparg)))),
        (rbkit_message_field_class_name, string_value (class_name_of h (tp_object tparg)))])]"
| "vm_frame h (Free_object obj) =
     frame_value (host_clock h) (event_code obj_destroyed) [(rbkit_message_field_payload, record_value
       [(rbkit_message_field_object_id, VInt (uint (obj_id (host_vm h) obj)))])]"
| "vm_frame h Gc_started = frame_value (host_clock h) (event_code gc_start) []"
| "vm_frame h Gc_marked = frame_value (host_clock h) (event_code gc_end_m) []"
| "vm_frame h Gc_swept = frame_value (host_clock h) (event_code gc_end_s) []"

text \<open>Class names are shorter than 2 GB.\<close>

fun vm_ok :: "host \<Rightarrow> vm_event \<Rightarrow> bool" where
  "vm_ok h (New_object gc_count tparg) \<longleftrightarrow> short (class_name_of h (tp_object tparg))"
| "vm_ok h _ \<longleftrightarrow> True"

lemma packs_vm: "vm_ok h ev \<Longrightarrow> packs (vm_calls h ev) [vm_frame h ev]"
  using packs_obj_created packs_obj_destroyed packs_header_only
  by (cases ev) (auto simp del: event_code.simps)

text \<open>What the tracked objects become.\<close>

fun vm_view :: "vm_event \<Rightarrow> (VALUE \<Rightarrow> alloc_data option) \<Rightarrow> VALUE \<Rightarrow> alloc_data option" where
  "vm_view (New_object gc_count tparg) m = m(tp_object tparg \<mapsto> arg_data gc_count tparg)"
| "vm_view (Free_object obj) m = m(obj := None)"
| "vm_view _ m = m"

definition logger_view :: "rbkit_logger \<Rightarrow> VALUE \<Rightarrow> alloc_data option" where
  "logger_view l = alloc_view (lg_str_table l) (lg_object_table l)"

text \<open>A hook packs the calls of its event.\<close>

lemma pack_and_send_holds:
  assumes p: "pack_event (host_enc h) (host_clock h) (lg_str_table arg) (message_counter s) ev
      = Inr (emit (host_enc h) cs, ev, message_counter s)"
    and h: "holds (host_enc h) vs (messages s)" and cs: "packs cs [v]"
    and room: "queued_bytes s + length (emit (host_enc h) cs) \<le> 2 ^ 63"
  shows "\<exists>s'. pack_and_send h ev arg s = Inr s'
    \<and> logger s' = Some (arg\<lparr>lg_sbuf := emit (host_enc h) cs\<rparr>)
    \<and> holds (host_enc h) (vs @ [v]) (messages s')
    \<and> queued_bytes s' = queued_bytes s + length (emit (host_enc h) cs)
    \<and> s' = s\<lparr>logger := logger s', messages := messages s', jobs := jobs s'\<rparr>
    \<and> jobs s' = jobs_after h (length vs) s"
proof -
  let ?s = "s\<lparr>logger := Some (arg\<lparr>lg_sbuf := emit (host_enc h) cs\<rparr>)\<rparr>"
  have j: "jobs_after h n ?s = jobs_after h n s" for n by (simp add: jobs_after_def)
  from send_message_holds [of h vs ?s cs v] h cs room obtain s' where
    m: "send_message h (emit (host_enc h) cs) ?s = Inr s'" "holds (host_enc h) (vs @ [v]) (messages s')"
      "queued_bytes s' = queued_bytes s + length (emit (host_enc h) cs)"
      "jobs s' = jobs_after h (length vs) s"
    and s': "s' = ?s\<lparr>messages := messages s', jobs := jobs s'\<rparr>"
    by (auto simp: queued_bytes_def j)
  have l: "logger s' = logger ?s" by (subst s') simp
  have "s' = s\<lparr>logger := logger s', messages := messages s', jobs := jobs s'\<rparr>"
    by (subst (1) s') (simp add: l)
  with m l p show ?thesis by (simp add: pack_and_send_def)
qed

lemma pack_vm_events:
  "pack_event enc clk tbl n (new_rbkit_obj_created_event i k info)
     = Inr (emit enc (pack_obj_created_event clk (event_code obj_created) i k),
            new_rbkit_obj_created_event i k info, n)"
  "pack_event enc clk tbl n (new_rbkit_obj_destroyed_event i)
     = Inr (emit enc (pack_obj_destroyed_event clk (event_code obj_destroyed) i),
            new_rbkit_obj_destroyed_event i, n)"
  "t \<in> {gc_start, gc_end_m, gc_end_s} \<Longrightarrow>
     pack_event enc clk tbl n (Event_header (event_code t))
       = Inr (emit enc (pack_event_header_only clk (event_code t)), Event_header (event_code t), n)"
  by (auto simp: pack_event_def new_rbkit_obj_created_event_def new_rbkit_obj_destroyed_event_def Let_def)

lemma run_hook_tables:
  assumes "alloc_inv (lg_str_table l) (lg_object_table l)" and "card (dom (lg_object_table l)) < 2 ^ 62"
  shows "\<exists>tbl objects ev'. run_hook h ev l s
      = pack_and_send h ev' (l\<lparr>lg_str_table := tbl, lg_object_table := objects\<rparr>) s
    \<and> alloc_inv tbl objects \<and> alloc_view tbl objects = vm_view ev (logger_view l)
    \<and> pack_event (host_enc h) (host_clock h) tbl (message_counter s) ev'
        = Inr (emit (host_enc h) (vm_calls h ev), ev', message_counter s)"
proof (cases ev)
  case (New_object gc_count tparg)
  from new_info_correct [OF assms, of gc_count tparg] obtain info tbl objects where
    "new_rbkit_allocation_info gc_count tparg (lg_str_table l) (lg_object_table l) = Inr (info, tbl, objects)"
    "alloc_inv tbl objects"
    "alloc_view tbl objects = vm_view ev (logger_view l)"
    unfolding logger_view_def New_object vm_view.simps by blast
  with New_object show ?thesis
    by (intro exI [of _ tbl] exI [of _ objects] exI [of _ "new_rbkit_obj_created_event
          (obj_id (host_vm h) (tp_object tparg)) (class_name_of h (tp_object tparg)) info"])
      (simp add: newobj_i_def pack_vm_events class_name_of_def Let_def)
next
  case (Free_object obj)
  from delete_info_correct [OF assms(1), of obj] obtain tbl objects where
    "delete_rbkit_allocation_info obj (lg_str_table l) (lg_object_table l) = Inr (tbl, objects)"
    "alloc_inv tbl objects"
    "alloc_view tbl objects = vm_view ev (logger_view l)"
    unfolding logger_view_def Free_object vm_view.simps by blast
  with Free_object show ?thesis
    by (intro exI [of _ tbl] exI [of _ objects]
          exI [of _ "new_rbkit_obj_destroyed_event (obj_id (host_vm h) obj)"])
      (simp add: freeobj_i_def pack_vm_events Let_def)
next
  case Gc_started
  with assms(1) show ?thesis
    by (intro exI [of _ "lg_str_table l"] exI [of _ "lg_object_table l"]
      exI [of _ "Event_header (event_code gc_start)"])
      (simp add: gc_start_i_def pack_vm_events logger_view_def del: event_code.simps)
next
  case Gc_marked
  with assms(1) show ?thesis
    by (intro exI [of _ "lg_str_table l"] exI [of _ "lg_object_table l"]
      exI [of _ "Event_header (event_code gc_end_m)"])
      (simp add: gc_end_mark_i_def pack_vm_events logger_view_def del: event_code.simps)
next
  case Gc_swept
  with assms(1) show ?thesis
    by (intro exI [of _ "lg_str_table l"] exI [of _ "lg_object_table l"]
      exI [of _ "Event_header (event_code gc_end_s)"])
      (simp add: gc_end_sweep_i_def pack_vm_events logger_view_def del: event_code.simps)
qed

text \<open>A disabled tracepoint does nothing; exactly one of the five listens to each kind.\<close>

lemma fire_silent: "silent tps \<Longrightarrow> fire_hooks h ev (tps @ rest) s = fire_hooks h ev rest s"
  by (induction tps) (auto simp: silent_def)

lemma fire_running:
  assumes "running enc vs l s" and "host_enc h = enc"
  shows "fire h ev s = (if lg_enabled l then run_hook h ev l s else Inr s)"
proof -
  from assms(1) obtain old where old: "silent old"
    "tracepoints s = old @ five_hooks (logger_number s) (lg_enabled l)"
    and l: "logger s = Some l" by (auto simp: running_def hooks_ok_def)
  then show ?thesis
    by (cases ev) (simp_all add: fire_def fire_silent five_hooks_def hook_kinds_def hook_logger_def and_then_def
      split: sum.splits)
qed

lemma fire_off: "stopped s \<Longrightarrow> fire h ev s = Inr s"
  using fire_silent [of "tracepoints s" h ev "[]" s] by (simp add: fire_def stopped_def)

text \<open>One event of the VM, with tracing on.\<close>

lemma fire_step:
  assumes r: "running enc vs l s" and on: "lg_enabled l" and e: "host_enc h = enc" and ok: "vm_ok h ev"
    and few: "card (dom (lg_object_table l)) < 2 ^ 62"
    and room: "queued_bytes s + length (emit enc (vm_calls h ev)) \<le> 2 ^ 63"
  shows "\<exists>s' l'. fire h ev s = Inr s' \<and> running enc (vs @ [vm_frame h ev]) l' s' \<and> lg_enabled l'
    \<and> logger_view l' = vm_view ev (logger_view l)
    \<and> lg_sampling_profiler_enabled l' = lg_sampling_profiler_enabled l
    \<and> queued_bytes s' = queued_bytes s + length (emit enc (vm_calls h ev))
    \<and> s' = s\<lparr>logger := logger s', messages := messages s', jobs := jobs s'\<rparr>
    \<and> jobs s' = jobs_after h (length vs) s"
proof -
  from r have inv: "alloc_inv (lg_str_table l) (lg_object_table l)"
    and hk: "hooks_ok l s" and h: "holds (host_enc h) vs (messages s)"
    by (simp_all add: running_def e)
  from run_hook_tables [OF inv few, of h ev s] obtain tbl objects ev' where
    rh: "run_hook h ev l s = pack_and_send h ev' (l\<lparr>lg_str_table := tbl, lg_object_table := objects\<rparr>) s"
    and a: "alloc_inv tbl objects" "alloc_view tbl objects = vm_view ev (logger_view l)"
    and p: "pack_event (host_enc h) (host_clock h) tbl (message_counter s) ev'
        = Inr (emit (host_enc h) (vm_calls h ev), ev', message_counter s)" by blast
  let ?l = "l\<lparr>lg_str_table := tbl, lg_object_table := objects, lg_sbuf := emit enc (vm_calls h ev)\<rparr>"
  from pack_and_send_holds [of h "l\<lparr>lg_str_table := tbl, lg_object_table := objects\<rparr>" s ev'
      "vm_calls h ev" vs "vm_frame h ev"] p h packs_vm [OF ok] room e
  obtain s' where s': "run_hook h ev l s = Inr s'" "logger s' = Some ?l"
    "holds enc (vs @ [vm_frame h ev]) (messages s')"
    "queued_bytes s' = queued_bytes s + length (emit enc (vm_calls h ev))"
    "jobs s' = jobs_after h (length vs) s"
    and fr: "s' = s\<lparr>logger := logger s', messages := messages s', jobs := jobs s'\<rparr>"
    unfolding rh by auto
  have "tracepoints s' = tracepoints s" "logger_number s' = logger_number s"
    by (subst fr; simp)+
  with hk have "hooks_ok ?l s'" by (simp add: hooks_ok_def)
  with s'(2,3) a(1) have "running enc (vs @ [vm_frame h ev]) ?l s'"
    by (simp add: running_def)
  moreover have "logger_view ?l = vm_view ev (logger_view l)"
    using a(2) by (simp add: logger_view_def)
  ultimately show ?thesis
    using fire_running [OF r e, of ev] on s'(1,4,5) fr by fastforce
qed

text \<open>Any number of events, each with the host of its moment.\<close>

fun fire_all :: "(host \<times> vm_event) list \<Rightarrow> server \<Rightarrow> c_error + server" where
  "fire_all [] s = Inr s"
| "fire_all ((h, ev) # es) s = and_then (fire h ev s) (fire_all es)"

definition vm_bytes :: "(mp_call \<Rightarrow> byte list) \<Rightarrow> (host \<times> vm_event) list \<Rightarrow> nat" where
  "vm_bytes enc es = (\<Sum>(h, ev)\<leftarrow>es. length (emit enc (vm_calls h ev)))"

definition vm_all_ok :: "(mp_call \<Rightarrow> byte list) \<Rightarrow> (host \<times> vm_event) list \<Rightarrow> bool" where
  "vm_all_ok enc es \<longleftrightarrow> list_all (\<lambda>(h, ev). host_enc h = enc \<and> vm_ok h ev) es"

definition frames_of :: "(host \<times> vm_event) list \<Rightarrow> mval list" where
  "frames_of es = map (\<lambda>(h, ev). vm_frame h ev) es"

lemma card_dom_view: "card (dom (lg_object_table l)) = card (dom (logger_view l))"
  by (simp add: logger_view_def dom_alloc_view)

lemma card_dom_vm_view: "card (dom (vm_view ev (logger_view l))) \<le> Suc (card (dom (logger_view l)))"
proof (cases ev)
  case (New_object gc_count tparg)
  then show ?thesis by (simp add: card_insert_if dom_alloc_view logger_view_def)
next
  case (Free_object obj)
  have "card (dom (logger_view l) - {obj}) \<le> card (dom (logger_view l))"
    by (rule card_Diff1_le)
  with Free_object show ?thesis by simp
qed simp_all

lemma fire_all_running:
  "running enc vs l s \<Longrightarrow> lg_enabled l \<Longrightarrow> vm_all_ok enc es \<Longrightarrow>
   card (dom (logger_view l)) + length es < 2 ^ 62 \<Longrightarrow> queued_bytes s + vm_bytes enc es \<le> 2 ^ 63 \<Longrightarrow>
   \<exists>s' l'. fire_all es s = Inr s' \<and> running enc (vs @ frames_of es) l' s' \<and> lg_enabled l'
    \<and> logger_view l' = fold vm_view (map snd es) (logger_view l)
    \<and> s' = s\<lparr>logger := logger s', messages := messages s', jobs := jobs s'\<rparr>"
proof (induction es arbitrary: s l vs)
  case Nil
  then show ?case by (auto simp: frames_of_def)
next
  case (Cons e es)
  obtain h ev where e: "e = (h, ev)" by fastforce
  from Cons.prems e have pre: "host_enc h = enc" "vm_ok h ev" "vm_all_ok enc es"
    "card (dom (lg_object_table l)) < 2 ^ 62"
    "queued_bytes s + length (emit enc (vm_calls h ev)) \<le> 2 ^ 63"
    by (simp_all add: vm_all_ok_def vm_bytes_def card_dom_view)
  from fire_step [OF Cons.prems(1,2) pre(1,2,4,5)] obtain s1 l1 where
    s1: "fire h ev s = Inr s1" "running enc (vs @ [vm_frame h ev]) l1 s1" "lg_enabled l1"
      "logger_view l1 = vm_view ev (logger_view l)"
      "queued_bytes s1 = queued_bytes s + length (emit enc (vm_calls h ev))"
    and fr: "s1 = s\<lparr>logger := logger s1, messages := messages s1, jobs := jobs s1\<rparr>"
    by blast
  have "card (dom (logger_view l1)) + length es < 2 ^ 62"
    using card_dom_vm_view [of ev l] Cons.prems(4) s1(4) by simp
  moreover have "queued_bytes s1 + vm_bytes enc es \<le> 2 ^ 63"
    using Cons.prems(5) s1(5) e by (simp add: vm_bytes_def)
  ultimately obtain s2 l2 where
    s2: "fire_all es s1 = Inr s2" "running enc ((vs @ [vm_frame h ev]) @ frames_of es) l2 s2"
      "lg_enabled l2" "logger_view l2 = fold vm_view (map snd es) (logger_view l1)"
    and fr2: "s2 = s1\<lparr>logger := logger s2, messages := messages s2, jobs := jobs s2\<rparr>"
    using Cons.IH [OF s1(2,3) pre(3)] by blast
  have "s2 = s\<lparr>logger := logger s2, messages := messages s2, jobs := jobs s2\<rparr>"
    by (subst (1) fr2, subst (1) fr) simp
  with s1 s2 e show ?case
    by (intro exI [of _ s2] exI [of _ l2]) (simp add: frames_of_def)
qed

section \<open>Publishing\<close>

text \<open>A callback that neither raises nor touches the server.\<close>

definition quiet :: ruby_code where
  "quiet s = Inr (False, s)"

text \<open>The state in which the Ruby code of a publication starts.\<close>

definition publishing :: "sbuffer \<Rightarrow> ulong \<Rightarrow> server \<Rightarrow> server" where
  "publishing buf counter s =
     (let s = s\<lparr>message_counter := counter\<rparr>;
          s = (case zmq_publisher s of None \<Rightarrow> s | Some k \<Rightarrow> log_zmq (Zmq_send k buf) s)
      in if server_instance s \<and> publish_callback s
         then s\<lparr>published := published s @ [buf]\<rparr> else s)"

lemma publishing_fields [simp]:
  "message_counter (publishing buf counter s) = counter"
  "zmq_log (publishing buf counter s) =
     zmq_log s @ (case zmq_publisher s of None \<Rightarrow> [] | Some k \<Rightarrow> [Zmq_send k buf])"
  "published (publishing buf counter s) =
     published s @ (if server_instance s \<and> publish_callback s then [buf] else [])"
  "messages (publishing buf counter s) = messages s"
  "logger (publishing buf counter s) = logger s"
  "tracepoints (publishing buf counter s) = tracepoints s"
  "logger_number (publishing buf counter s) = logger_number s"
  "jobs (publishing buf counter s) = jobs s"
  by (cases "zmq_publisher s"; simp add: publishing_def log_zmq_def Let_def)+

lemma trigger_publish_holds:
  assumes codec: "msgpack_codec (host_enc h) dec" and m: "holds (host_enc h) vs (messages s)"
    and ne: "vs \<noteq> []" and few: "length vs < 2 ^ 32"
  shows "\<exists>bytes. unpack dec bytes = Some (collection_value (host_clock h) (message_counter s) vs)
    \<and> trigger_publish_callback h during s =
        and_then (if server_instance s \<and> publish_callback s
                  then during (publishing bytes (message_counter s + 1) s)
                  else Inr (False, publishing bytes (message_counter s + 1) s))
          (\<lambda>(raised, s). Inr (if raised then s else s\<lparr>messages := message_list_clear (messages s)\<rparr>))"
proof -
  from collection_holds [OF codec m ne few, of "host_clock h" "strings_of s" "message_counter s" "[]"]
  obtain bytes where
    "get_event_collection_message (host_enc h) (host_clock h) (strings_of s) (message_counter s) []
       (messages s) = Inr (bytes, message_counter s + 1)" "bytes \<noteq> []"
    "unpack dec bytes = Some (collection_value (host_clock h) (message_counter s) vs)" by blast
  then show ?thesis
    by (intro exI [of _ bytes]) (cases "zmq_publisher s",
      simp_all add: trigger_publish_callback_def publish_message_def publishing_def log_zmq_def Let_def)
qed

lemma trigger_publish_empty:
  assumes "holds (host_enc h) [] (messages s)"
  shows "trigger_publish_callback h during s = Inr (s\<lparr>messages := message_list_clear (messages s)\<rparr>)"
proof -
  from assms have "no_of_messages (messages s) = 0" by (auto simp: holds_def queued_def)
  then show ?thesis by (simp add: trigger_publish_callback_def get_event_collection_message_def Let_def)
qed

end
