(* ===== verification/Server_Dump.thy ===== *)
theory Server_Dump
  imports Server_Invariant
begin

text \<open>
  \<open>send_objectspace_dump\<close> of \<open>ext/rbkit_server.c\<close>: the loop that turns one snapshot of the
  heap into as many messages as it needs, each with the next thousand records, all with
  the same correlation id and the total number of records.
\<close>

section \<open>The records of a snapshot can be packed\<close>

definition vm_fits :: "ruby_vm \<Rightarrow> str_table \<Rightarrow> object_table \<Rightarrow> bool" where
  "vm_fits vm tbl objects \<longleftrightarrow>
     (\<forall>v. length (class2name vm v) < 2 ^ 31) \<and> (\<forall>v. length (reachable_from vm v) < 2 ^ 32)
   \<and> (\<forall>v i. objects v = Some i \<longrightarrow> short (resolve tbl (ai_path i)))"

lemma live_path:
  "alloc_inv tbl objects \<Longrightarrow> objects v = Some i \<Longrightarrow> ai_path i = Some p \<Longrightarrow> heap tbl p \<noteq> None"
  using info_refs_member [of objects v i p] held_live [of "object_refs objects" tbl p]
  by (simp add: alloc_inv_def info_refs_def)

lemma object_data_ok_of:
  assumes inv: "alloc_inv tbl objects" and fits: "vm_fits vm tbl objects"
  shows "object_data_ok tbl (object_data_of vm objects obj)"
proof -
  have "length (reference_ids vm obj) \<le> length (reachable_from vm obj)"
    by (simp add: reference_ids_def)
  with fits have n: "length (reference_ids vm obj) < 2 ^ 32"
    unfolding vm_fits_def by (metis le_less_trans)
  then have "unat (of_nat (length (reference_ids vm obj)) :: size_t) = length (reference_ids vm obj)"
    by (simp add: unat_of_nat)
  with n fits live_path [OF inv, of obj] show ?thesis
    by (auto simp: object_data_ok_def object_data_of_def vm_fits_def short_def references_of_def resolve_def
      split: option.splits)
qed

lemma new_dump_event_ok:
  assumes inv: "dump_inv dump" and ne: "dump_list dump \<noteq> []" and n: "length (dump_list dump) < 2 ^ 64"
  shows "\<exists>d. new_rbkit_object_space_dump_event c dump = Inr (d, c + 1) \<and> dump_cursor_ok d
    \<and> dump_rest d = dump_list dump \<and> ev_correlation_id d = c + 1
    \<and> ev_object_count d = of_nat (length (dump_list dump))"
proof -
  from ne obtain p ps where p: "dump_pages dump = p # ps"
    by (cases "dump_pages dump") (auto simp: dump_list_def)
  with inv have count: "dump_object_count dump = Some (of_nat (length (dump_list dump)))"
    and ok: "pages_ok (p # ps)" by (simp_all add: dump_inv_def)
  have "unat (of_nat (length (dump_list dump)) :: size_t) = length (dump_list dump)"
    using n by (simp add: unat_of_nat)
  with p count ok show ?thesis
    by (simp add: new_rbkit_object_space_dump_event_def dump_cursor_ok_def dump_rest_def dump_list_def)
qed

section \<open>The loop\<close>

definition dump_frames ::
  "clock \<Rightarrow> str_table \<Rightarrow> c_int \<Rightarrow> ulong \<Rightarrow> rbkit_object_data list \<Rightarrow> mval list" where
  "dump_frames clk tbl correlation object_count ds =
     map (dump_message_value clk tbl correlation object_count) (chunks 1000 ds)"

definition dump_bytes :: "(mp_call \<Rightarrow> byte list) \<Rightarrow> clock \<Rightarrow> str_table \<Rightarrow> c_int \<Rightarrow> ulong
    \<Rightarrow> rbkit_object_data list \<Rightarrow> nat" where
  "dump_bytes enc clk tbl correlation object_count ds =
     (\<Sum>b\<leftarrow>chunks 1000 ds. length (emit enc (batch_calls clk tbl correlation object_count b)))"

abbreviation dump_event :: "rbkit_object_space_dump_event \<Rightarrow> rbkit_event" where
  "dump_event d \<equiv> Object_space_dump_event (event_code object_space_dump) d"

text \<open>The loop condition counts what the cursor has left.\<close>

lemma dump_packing_rest:
  "dump_cursor_ok d \<Longrightarrow> dump_packing (Object_space_dump_event t d) \<longleftrightarrow> dump_rest d \<noteq> []"
  by (cases "dump_rest d") (auto simp: dump_packing_def dump_cursor_ok_def word_less_nat_alt)

lemma dump_loop_done: "\<not> dump_packing ev \<Longrightarrow> dump_loop h ev s = Inr (ev, s)"
  unfolding dump_loop_def by (subst while_option_unfold) simp

lemma dump_loop_step:
  "dump_packing ev \<Longrightarrow> dump_round h (ev, s) = Inr (ev', s') \<Longrightarrow> dump_loop h ev s = dump_loop h ev' s'"
  unfolding dump_loop_def by (subst while_option_unfold) simp

lemma dump_round_holds:
  assumes ok: "dump_cursor_ok d" and recs: "list_all (object_data_ok (strings_of s)) (dump_rest d)"
    and h: "holds (host_enc h) vs (messages s)"
    and calls: "cs = batch_calls (host_clock h) (strings_of s) (ev_correlation_id d) (ev_object_count d)
      (take 1000 (dump_rest d))"
    and room: "queued_bytes s + length (emit (host_enc h) cs) \<le> 2 ^ 63"
  shows "\<exists>d' s'. dump_round h (dump_event d, s) = Inr (dump_event d', s')
    \<and> dump_cursor_ok d' \<and> dump_rest d' = drop 1000 (dump_rest d)
    \<and> ev_object_count d' = ev_object_count d \<and> ev_correlation_id d' = ev_correlation_id d
    \<and> holds (host_enc h) (vs @ [dump_message_value (host_clock h) (strings_of s) (ev_correlation_id d)
        (ev_object_count d) (take 1000 (dump_rest d))]) (messages s')
    \<and> queued_bytes s' = queued_bytes s + length (emit (host_enc h) cs)
    \<and> s' = s\<lparr>messages := messages s', jobs := jobs s'\<rparr>"
proof -
  from packs_dump [OF ok recs, of "host_clock h"] calls obtain d' where
    d': "pack_object_space_dump_event (host_clock h) (strings_of s) (event_code object_space_dump) d = Inr (cs, d')"
      "packs cs [event_value (host_clock h) (strings_of s) (dump_event d)]"
      "dump_cursor_ok d'" "dump_rest d' = drop 1000 (dump_rest d)"
      "ev_object_count d' = ev_object_count d" "ev_correlation_id d' = ev_correlation_id d"
    by blast
  have p: "pack_fresh h (dump_event d) s = Inr (emit (host_enc h) cs, dump_event d', s)"
    using d'(1) by (simp add: pack_fresh_def pack_event_def Let_def)
  from send_message_holds [OF h d'(2) room] obtain s' where
    "send_message h (emit (host_enc h) cs) s = Inr s'"
    "holds (host_enc h) (vs @ [event_value (host_clock h) (strings_of s) (dump_event d)]) (messages s')"
    "queued_bytes s' = queued_bytes s + length (emit (host_enc h) cs)"
    "s' = s\<lparr>messages := messages s', jobs := jobs s'\<rparr>" by blast
  with p d' show ?thesis
    by (intro exI [of _ d'] exI [of _ s']) (simp add: dump_round_def)
qed

lemma dump_loop_holds:
  assumes "dump_cursor_ok d" "list_all (object_data_ok (strings_of s)) (dump_rest d)"
    "holds (host_enc h) vs (messages s)"
    "queued_bytes s + dump_bytes (host_enc h) (host_clock h) (strings_of s) (ev_correlation_id d)
       (ev_object_count d) (dump_rest d) \<le> 2 ^ 63"
  shows "\<exists>d' s'. dump_loop h (dump_event d) s = Inr (dump_event d', s')
    \<and> dump_cursor_ok d' \<and> dump_rest d' = []
    \<and> holds (host_enc h) (vs @ dump_frames (host_clock h) (strings_of s) (ev_correlation_id d)
        (ev_object_count d) (dump_rest d)) (messages s')
    \<and> s' = s\<lparr>messages := messages s', jobs := jobs s'\<rparr>"
  using assms
proof (induction "length (dump_rest d)" arbitrary: d s vs rule: less_induct)
  case less
  show ?case
  proof (cases "dump_rest d = []")
    case True
    then have "dump_loop h (dump_event d) s = Inr (dump_event d, s)"
      using less.prems(1) by (intro dump_loop_done) (simp add: dump_packing_rest)
    with True less.prems(1,3) show ?thesis by (simp add: dump_frames_def)
  next
    case False
    let ?tbl = "strings_of s" and ?c = "ev_correlation_id d" and ?n = "ev_object_count d"
    let ?b = "take 1000 (dump_rest d)"
    let ?cs = "batch_calls (host_clock h) ?tbl ?c ?n ?b"
    have chunk: "chunks 1000 (dump_rest d) = ?b # chunks 1000 (drop 1000 (dump_rest d))"
      using False by (simp add: chunks_step)
    with less.prems(4) have room: "queued_bytes s + length (emit (host_enc h) ?cs) \<le> 2 ^ 63"
      by (simp add: dump_bytes_def)
    from dump_round_holds [OF less.prems(1-3) refl room] obtain d1 s1 where
      r: "dump_round h (dump_event d, s) = Inr (dump_event d1, s1)"
      and d1: "dump_cursor_ok d1" "dump_rest d1 = drop 1000 (dump_rest d)"
        "ev_object_count d1 = ?n" "ev_correlation_id d1 = ?c"
      and s1: "holds (host_enc h) (vs @ [dump_message_value (host_clock h) ?tbl ?c ?n ?b]) (messages s1)"
        "queued_bytes s1 = queued_bytes s + length (emit (host_enc h) ?cs)"
      and fr: "s1 = s\<lparr>messages := messages s1, jobs := jobs s1\<rparr>"
      by blast
    have tbl: "strings_of s1 = ?tbl" by (subst fr) (simp add: strings_of_def)
    have short: "length (dump_rest d1) < length (dump_rest d)" using d1(2) False by simp
    have recs: "list_all (object_data_ok (strings_of s1)) (dump_rest d1)"
      using less.prems(2) d1(2) tbl by (auto simp: list_all_iff dest: in_set_dropD)
    have room1: "queued_bytes s1 + dump_bytes (host_enc h) (host_clock h) (strings_of s1)
        (ev_correlation_id d1) (ev_object_count d1) (dump_rest d1) \<le> 2 ^ 63"
      using less.prems(4) s1(2) d1 tbl chunk by (simp add: dump_bytes_def)
    from less.hyps [OF short d1(1) recs s1(1) room1] obtain d2 s2 where
      "dump_loop h (dump_event d1) s1 = Inr (dump_event d2, s2)" "dump_cursor_ok d2" "dump_rest d2 = []"
      and s2: "holds (host_enc h) ((vs @ [dump_message_value (host_clock h) ?tbl ?c ?n ?b])
        @ dump_frames (host_clock h) ?tbl ?c ?n (drop 1000 (dump_rest d))) (messages s2)"
      and fr2: "s2 = s1\<lparr>messages := messages s2, jobs := jobs s2\<rparr>"
      using d1 tbl by auto
    moreover have "dump_loop h (dump_event d) s = dump_loop h (dump_event d1) s1"
      using False less.prems(1) r by (intro dump_loop_step) (simp_all add: dump_packing_rest)
    moreover have "s2 = s\<lparr>messages := messages s2, jobs := jobs s2\<rparr>"
      by (subst (1) fr2, subst (1) fr) simp
    moreover have "vs @ dump_frames (host_clock h) ?tbl ?c ?n (dump_rest d)
      = (vs @ [dump_message_value (host_clock h) ?tbl ?c ?n ?b])
        @ dump_frames (host_clock h) ?tbl ?c ?n (drop 1000 (dump_rest d))"
      using chunk by (simp add: dump_frames_def)
    ultimately show ?thesis by auto
  qed
qed

text \<open>When everything is packed, one page is left for the caller to free.\<close>

lemma dump_end_one_page: "dump_cursor_ok d \<Longrightarrow> dump_rest d = [] \<Longrightarrow> length (ev_pages d) \<le> 1"
proof (cases "ev_pages d")
  case (Cons p ps)
  assume "dump_cursor_ok d" "dump_rest d = []"
  with Cons have "pages_ok (p # ps)" "concat (map pg_data ps) = []"
    by (auto simp: dump_cursor_ok_def dump_rest_def)
  then have "ps = []"
    using pages_ok_tl [of p ps] by (cases ps) (auto simp: pages_ok_def page_wf_def)
  with Cons show ?thesis by simp
qed simp

section \<open>The whole operation\<close>

lemma send_objectspace_dump_running:
  assumes r: "running enc vs l s" and e: "host_enc h = enc" and hp: "heap_ok (host_vm h) hp"
    and ne: "live_objects (host_vm h) hp \<noteq> []" and n: "length (live_objects (host_vm h) hp) < 2 ^ 63"
    and fits: "vm_fits (host_vm h) (lg_str_table l) (lg_object_table l)"
    and recs: "recs = map (object_data_of (host_vm h) (lg_object_table l)) (live_objects (host_vm h) hp)"
    and room: "queued_bytes s + dump_bytes enc (host_clock h) (lg_str_table l) (correlation_id s + 1)
        (of_nat (length recs)) recs \<le> 2 ^ 63"
  shows "\<exists>s'. send_objectspace_dump h (map snd hp) s = Inr s'
    \<and> running enc (vs @ dump_frames (host_clock h) (lg_str_table l) (correlation_id s + 1)
        (of_nat (length recs)) recs) l s'
    \<and> correlation_id s' = correlation_id s + 1
    \<and> s' = s\<lparr>correlation_id := correlation_id s + 1, messages := messages s', jobs := jobs s'\<rparr>"
proof -
  from r have l: "logger s = Some l" and inv: "alloc_inv (lg_str_table l) (lg_object_table l)"
    and hk: "hooks_ok l s" and hm: "holds (host_enc h) vs (messages s)"
    by (simp_all add: running_def e)
  from get_object_dump_correct [OF hp, of "lg_object_table l"] recs obtain dump where
    dump: "get_object_dump (host_vm h) (map snd hp) (lg_object_table l) = Inr dump" "dump_inv dump"
      "dump_list dump = recs" by blast
  have len: "recs \<noteq> []" "length recs < 2 ^ 64" using recs ne n by simp_all
  from new_dump_event_ok [OF dump(2), of "correlation_id s"] dump(3) len obtain d where
    d: "new_rbkit_object_space_dump_event (correlation_id s) dump = Inr (d, correlation_id s + 1)"
      "dump_cursor_ok d" "dump_rest d = recs" "ev_correlation_id d = correlation_id s + 1"
      "ev_object_count d = of_nat (length recs)" by auto
  let ?s = "s\<lparr>correlation_id := correlation_id s + 1\<rparr>"
  have tbl: "strings_of ?s = lg_str_table l" using l by (simp add: strings_of_def)
  have "list_all (object_data_ok (strings_of ?s)) (dump_rest d)"
    unfolding d(3) tbl recs by (simp add: list_all_iff object_data_ok_of [OF inv fits])
  from dump_loop_holds [OF d(2) this, of h vs] hm room tbl d e obtain d' s' where
    s': "dump_loop h (dump_event d) ?s = Inr (dump_event d', s')"
      "holds enc (vs @ dump_frames (host_clock h) (lg_str_table l) (correlation_id s + 1)
        (of_nat (length recs)) recs) (messages s')"
    and fr: "s' = ?s\<lparr>messages := messages s', jobs := jobs s'\<rparr>"
    by (auto simp: queued_bytes_def)
  have f: "logger s' = Some l" "correlation_id s' = correlation_id s + 1" "tracepoints s' = tracepoints s"
    "logger_number s' = logger_number s"
    by (subst fr; simp add: l)+
  have "send_objectspace_dump h (map snd hp) s = Inr s'"
    using l dump(1) d(1) s'(1) by (simp add: send_objectspace_dump_def the_logger_def)
  moreover have "hooks_ok l s'" using hk f by (simp add: hooks_ok_def)
  ultimately show ?thesis using s'(2) f inv fr by (auto simp: running_def)
qed

text \<open>
  Claim C7. A snapshot of a heap with live objects, taken on a running server with room in
  the queue, ends and is queued completely: its records, one for each live object in heap
  order, are cut into batches of at most 1000, none empty, as many as the count needs;
  each batch becomes one message with the same new correlation id; the messages go behind
  what was queued, in order, and nothing else of the server changes. The field
  \<open>complete_message_count\<close> of every one of them is the number of records of the whole
  snapshot. That is not the number of messages, which its name, the comment in the packer
  and the title of the spec promise: with more than one record it is larger.
\<close>

theorem objectspace_dump_batches:
  assumes "running enc vs l s" and "host_enc h = enc" and "heap_ok (host_vm h) hp"
    and "live_objects (host_vm h) hp \<noteq> []" and "length (live_objects (host_vm h) hp) < 2 ^ 63"
    and "vm_fits (host_vm h) (lg_str_table l) (lg_object_table l)"
    and "recs = map (object_data_of (host_vm h) (lg_object_table l)) (live_objects (host_vm h) hp)"
    and "queued_bytes s + dump_bytes enc (host_clock h) (lg_str_table l) (correlation_id s + 1)
        (of_nat (length recs)) recs \<le> 2 ^ 63"
  shows "\<exists>s' batches. send_objectspace_dump h (map snd hp) s = Inr s'
    \<and> concat batches = recs \<and> length batches = (length recs + 999) div 1000
    \<and> (1 < length recs \<longrightarrow> length batches < length recs)
    \<and> list_all (\<lambda>b. 0 < length b \<and> length b \<le> 1000) batches
    \<and> running enc (vs @ map (dump_message_value (host_clock h) (lg_str_table l) (correlation_id s + 1)
        (of_nat (length recs))) batches) l s'
    \<and> correlation_id s' = correlation_id s + 1
    \<and> s' = s\<lparr>correlation_id := correlation_id s + 1, messages := messages s', jobs := jobs s'\<rparr>"
proof -
  from send_objectspace_dump_running [OF assms] obtain s' where
    "send_objectspace_dump h (map snd hp) s = Inr s'"
    "running enc (vs @ dump_frames (host_clock h) (lg_str_table l) (correlation_id s + 1)
        (of_nat (length recs)) recs) l s'" "correlation_id s' = correlation_id s + 1"
    "s' = s\<lparr>correlation_id := correlation_id s + 1, messages := messages s', jobs := jobs s'\<rparr>" by blast
  moreover have "length (chunks 1000 recs) = (length recs + 999) div 1000"
    "1 < length recs \<Longrightarrow> (length recs + 999) div 1000 < length recs"
    by (simp_all add: length_chunks div_less_iff_less_mult)
  moreover have "list_all (\<lambda>b. 0 < length b \<and> length b \<le> 1000) (chunks 1000 recs)"
    using chunks_bounds [of _ 1000 recs] by (auto simp: list_all_iff)
  ultimately show ?thesis
    by (intro exI [of _ s'] exI [of _ "chunks 1000 recs"]) (simp add: dump_frames_def)
qed

definition example_host :: host where
  "example_host = \<lparr>host_enc = ref_enc, host_clock = example_clock, host_vm = example_vm,
     job_capacity = 1000\<rparr>"

lemma example_live: "live_objects example_vm example_heap = [40, 160]"
proof -
  have "[0..<4] = [0, 1, 2, 3 :: nat]" by code_simp
  then show ?thesis
    by (simp add: live_objects_def example_heap_def page_slots_def dumpable_def example_vm_def)
qed

lemma example_dump_bytes:
  "dump_bytes ref_enc example_clock tbl 1 2 (map (object_data_of example_vm (\<lambda>_. None)) [40, 160]) \<le> 2 ^ 63"
  by (simp add: dump_bytes_def chunks_step batch_calls_def object_data_calls_def pack_object_data_def
    pack_references_def object_data_of_def reference_ids_def example_vm_def c_string_at_def pack_string_def
    pack_event_header_def pack_timestamp_def Let_def through_int_small nil_or_ulong_def)

theorem objectspace_dump_batches_witness:
  "\<exists>s s'. start_tracker server_init = Inr s
    \<and> send_objectspace_dump example_host (map snd example_heap) s = Inr s'
    \<and> queued_message_count (messages s') = 1 \<and> correlation_id s' = 1"
proof -
  from start_tracker_running [OF stopped_init, of ref_enc] obtain s l where
    s: "start_tracker server_init = Inr s" "running ref_enc [] l s" "lg_object_table l = (\<lambda>_. None)"
      "correlation_id s = correlation_id server_init" "queued_bytes s = 0" by metis
  have c: "correlation_id s = 0" using s(4) by (simp add: server_init_def)
  let ?recs = "map (object_data_of example_vm (\<lambda>_. None)) [40, 160]"
  have "vm_fits (host_vm example_host) (lg_str_table l) (lg_object_table l)"
    by (simp add: vm_fits_def s(3) example_host_def example_vm_def)
  moreover have "host_enc example_host = ref_enc" "host_vm example_host = example_vm"
    "host_clock example_host = example_clock" by (simp_all add: example_host_def)
  ultimately obtain s' batches where
    s': "send_objectspace_dump example_host (map snd example_heap) s = Inr s'"
      "length batches = (length ?recs + 999) div 1000"
      "running ref_enc ([] @ map (dump_message_value example_clock (lg_str_table l) 1 2) batches) l s'"
      "correlation_id s' = 1"
    using objectspace_dump_batches [OF s(2), of example_host example_heap ?recs] example_heap_ok
      example_live example_dump_bytes [of "lg_str_table l"] s(3,5) c
    by auto
  then have "queued_message_count (messages s') = 1"
    using holds_count [of ref_enc "map (dump_message_value example_clock (lg_str_table l) 1 2) batches"]
    by (simp add: running_def)
  with s(1) s'(1,4) show ?thesis by blast
qed

end
