(* ===== verification/Server_Reachable.thy ===== *)
theory Server_Reachable
  imports Server_Dump
begin

text \<open>
  Every state the server can be in when its operations are called as \<open>lib/rbkit/server.rb\<close>
  calls them (start only when stopped, the others only while running, the CPU profiler
  off before a stop): an inductive set of states, an invariant on it, and what follows:
  no operation ends in an error, no tracepoint reaches a freed logger, no interval timer
  outlives its profiler.
\<close>

section \<open>Starting\<close>

definition short_port :: "c_int \<Rightarrow> bool" where
  "short_port p \<longleftrightarrow> 0 \<le> sint p \<and> sint p < 10000"

lemma digits_short: "n < 10000 \<Longrightarrow> length (digits n) \<le> 4"
  by (simp add: digits.simps [of n] digits.simps [of "n div 10"] digits.simps [of "n div 100"]
    digits.simps [of "n div 1000"] div_mult2_eq [symmetric])

lemma digits_long: "10000 \<le> n \<Longrightarrow> 5 \<le> length (digits n)"
proof -
  assume "10000 \<le> n"
  then have "10000 div 1000 \<le> n div 1000" by (intro div_le_mono) simp
  moreover from \<open>10000 \<le> n\<close> have "10 \<le> n" "10 \<le> n div 10" "10 \<le> n div 100" by auto
  moreover have "0 < length (digits m)" for m by (subst digits.simps) simp
  ultimately show ?thesis
    by (simp add: digits.simps [of n] digits.simps [of "n div 10"] digits.simps [of "n div 100"]
      digits.simps [of "n div 1000"] div_mult2_eq [symmetric] Suc_le_eq)
qed

text \<open>An endpoint fits its 21 bytes when the port has at most four digits.\<close>

lemma endpoint_fits: "0 \<le> sint p \<Longrightarrow> length (endpoint p) + 1 \<le> 21 \<longleftrightarrow> sint p < 10000"
proof (cases "sint p < 10000")
  case True
  assume "0 \<le> sint p"
  with True digits_short [of "nat (sint p)"] show ?thesis by (simp add: endpoint_def decimal_def)
next
  case False
  assume "0 \<le> sint p"
  from False have "10000 \<le> nat (sint p)" by linarith
  with False \<open>0 \<le> sint p\<close> digits_long [of "nat (sint p)"] show ?thesis
    by (simp add: endpoint_def decimal_def)
qed

lemma open_publisher_short:
  "short_port p \<Longrightarrow> open_publisher z p s =
     Inr (p = 0 \<or> bind_succeeds z ZMQ_PUB (endpoint p),
          if p = 0 then s
          else log_zmq (Zmq_bind (new_socket z ZMQ_PUB) (endpoint p))
                 (log_zmq (Zmq_socket ZMQ_PUB (new_socket z ZMQ_PUB))
                   (s\<lparr>zmq_publisher := Some (new_socket z ZMQ_PUB)\<rparr>)))"
  using endpoint_fits [of p] by (simp add: open_publisher_def sprintf_into_def short_port_def Let_def)

lemma open_responder_short:
  "short_port p \<Longrightarrow> \<exists>s'. open_responder z p s = Inr (p = 0 \<or> bind_succeeds z ZMQ_REP (endpoint p), s')
     \<and> logger s' = logger s \<and> tracepoints s' = tracepoints s \<and> messages s' = messages s
     \<and> cpu_profiler s' = cpu_profiler s \<and> zmq_publisher s' = zmq_publisher s \<and> jobs s' = jobs s
     \<and> message_counter s' = message_counter s \<and> published s' = published s
     \<and> publish_callback s' = publish_callback s \<and> server_instance s' = server_instance s
     \<and> test_mode_enabled s' = test_mode_enabled s
     \<and> zmq_response_socket s' = (if p = 0 then zmq_response_socket s else Some (new_socket z ZMQ_REP))"
  using endpoint_fits [of p]
  by (simp add: open_responder_def sprintf_into_def short_port_def Let_def log_zmq_def)

text \<open>What a start that returns has done, whatever the ports.\<close>

lemma open_publisher_frame:
  "open_publisher z p s = Inr (ok, s') \<Longrightarrow>
     logger s' = logger s \<and> tracepoints s' = tracepoints s \<and> messages s' = messages s
     \<and> cpu_profiler s' = cpu_profiler s"
  by (auto simp: open_publisher_def and_then_eq_Inr log_zmq_def Let_def split: if_splits)

lemma open_responder_frame:
  "open_responder z p s = Inr (ok, s') \<Longrightarrow>
     logger s' = logger s \<and> tracepoints s' = tracepoints s \<and> messages s' = messages s
     \<and> cpu_profiler s' = cpu_profiler s"
  by (auto simp: open_responder_def and_then_eq_Inr log_zmq_def Let_def split: if_splits)

lemma stopped_cong:
  "logger s' = logger s \<Longrightarrow> tracepoints s' = tracepoints s \<Longrightarrow> messages s' = messages s \<Longrightarrow>
     stopped s' = stopped s"
  by (simp add: stopped_def)

lemma start_stat_server_result:
  assumes st: "stopped s" and r: "start_stat_server z p q s = Inr (ok, s')"
  shows "(if ok then \<exists>l. running enc [] l s' \<and> \<not> lg_enabled l \<and> \<not> lg_sampling_profiler_enabled l
            \<and> lg_object_table l = (\<lambda>_. None) \<and> queued_bytes s' = 0
          else stopped s')
    \<and> cpu_profiler s' = cpu_profiler s"
proof -
  let ?s = "s\<lparr>server_instance := True\<rparr>"
  from r obtain p' q' where p: "FIX2INT p = Inr p'" and q: "FIX2INT q = Inr q'"
    by (auto simp: start_stat_server_def Let_def and_then_eq_Inr)
  let ?c = "if p' \<noteq> 0 \<or> VALUE_of q \<noteq> 0
            then log_zmq (Zmq_ctx_new (new_context z)) (?s\<lparr>zmq_context := Some (new_context z)\<rparr>) else ?s"
  from r p q obtain ok1 s1 where s1: "open_publisher z p' ?c = Inr (ok1, s1)"
    and r1: "(if \<not> ok1 then Inr (False, s1) else and_then (open_responder z q' s1) (\<lambda>(bound, s).
            if \<not> bound then Inr (False, s)
            else and_then (start_tracker s) (\<lambda>s. Inr (True, s)))) = Inr (ok, s')"
    by (auto simp: start_stat_server_def and_then_eq_Inr Let_def split: prod.splits)
  have c: "logger ?c = logger s" "tracepoints ?c = tracepoints s" "messages ?c = messages s"
    "cpu_profiler ?c = cpu_profiler s" by (simp_all add: log_zmq_def)
  have st1: "stopped s1" "cpu_profiler s1 = cpu_profiler s"
    using open_publisher_frame [OF s1] c st by (simp_all add: stopped_def)
  show ?thesis
  proof (cases ok1)
    case False
    with r1 st1 show ?thesis by auto
  next
    case True
    with r1 obtain ok2 s2 where s2: "open_responder z q' s1 = Inr (ok2, s2)"
      and r2: "(if \<not> ok2 then Inr (False, s2)
            else and_then (start_tracker s2) (\<lambda>s. Inr (True, s))) = Inr (ok, s')"
      by (auto simp: and_then_eq_Inr)
    have st2: "stopped s2" "cpu_profiler s2 = cpu_profiler s"
      using open_responder_frame [OF s2] st1 by (simp_all add: stopped_def)
    show ?thesis
    proof (cases ok2)
      case False
      with r2 st2 show ?thesis by auto
    next
      case True
      from start_tracker_running [OF st2(1), of enc] obtain s3 l where
        "start_tracker s2 = Inr s3" "running enc [] l s3" "\<not> lg_enabled l" "\<not> lg_sampling_profiler_enabled l"
        "lg_object_table l = (\<lambda>_. None)" "cpu_profiler s3 = cpu_profiler s2" "queued_bytes s3 = 0"
        by blast
      with True r2 st2 show ?thesis by auto
    qed
  qed
qed

section \<open>Operations that leave the queue and the tables\<close>

lemma running_cong:
  "logger s' = logger s \<Longrightarrow> tracepoints s' = tracepoints s \<Longrightarrow> logger_number s' = logger_number s \<Longrightarrow>
   messages s' = messages s \<Longrightarrow> running enc vs l s' = running enc vs l s"
  by (simp add: running_def hooks_ok_def)

lemma send_messages_frame [rbkit_frame]:
  "logger (send_messages h s) = logger s" "tracepoints (send_messages h s) = tracepoints s"
  "logger_number (send_messages h s) = logger_number s" "messages (send_messages h s) = messages s"
  "cpu_profiler (send_messages h s) = cpu_profiler s"
  by (simp_all add: send_messages_def)

lemma timer_expires_frame [rbkit_frame]:
  "logger (timer_expires h w s) = logger s" "tracepoints (timer_expires h w s) = tracepoints s"
  "logger_number (timer_expires h w s) = logger_number s" "messages (timer_expires h w s) = messages s"
  "cpu_profiler (timer_expires h w s)
     = (if armed (cpu_profiler s) w then expire w (cpu_profiler s) else cpu_profiler s)"
  by (simp_all add: timer_expires_def Let_def)

lemma set_sampling_running:
  "running enc vs l s \<Longrightarrow> running enc vs (l\<lparr>lg_sampling_profiler_enabled := b\<rparr>)
     (set_sampling b (s\<lparr>cpu_profiler := p\<rparr>))"
  by (simp add: running_def hooks_ok_def set_sampling_def)

text \<open>A publication, with Ruby code that leaves the server alone but may raise.\<close>

definition only_raises :: "bool \<Rightarrow> ruby_code" where
  "only_raises b s = Inr (b, s)"

lemma publish_message_frame:
  "publish_message (only_raises b) buf s = Inr (raised, s') \<Longrightarrow>
     logger s' = logger s \<and> tracepoints s' = tracepoints s \<and> logger_number s' = logger_number s
     \<and> messages s' = messages s \<and> cpu_profiler s' = cpu_profiler s"
  by (auto simp: publish_message_def only_raises_def log_zmq_def Let_def split: option.splits if_splits)

lemma trigger_publish_frame:
  assumes "trigger_publish_callback h (only_raises b) s = Inr s'"
  shows "(messages s' = messages s \<or> messages s' = message_list_clear (messages s))
    \<and> logger s' = logger s \<and> tracepoints s' = tracepoints s \<and> logger_number s' = logger_number s
    \<and> cpu_profiler s' = cpu_profiler s"
proof -
  from assms obtain buf counter raised s1 where
    "(if 0 < length buf then publish_message (only_raises b) buf (s\<lparr>message_counter := counter\<rparr>)
      else Inr (False, s\<lparr>message_counter := counter\<rparr>)) = Inr (raised, s1)"
    and s': "s' = (if raised then s1 else s1\<lparr>messages := message_list_clear (messages s1)\<rparr>)"
    by (auto simp: trigger_publish_callback_def and_then_eq_Inr Let_def)
  then have "logger s1 = logger s \<and> tracepoints s1 = tracepoints s \<and> logger_number s1 = logger_number s
     \<and> messages s1 = messages s \<and> cpu_profiler s1 = cpu_profiler s"
    using publish_message_frame [of b buf "s\<lparr>message_counter := counter\<rparr>" raised s1]
    by (auto split: if_splits)
  with s' show ?thesis by auto
qed

lemma running_clear: "running enc vs l s \<Longrightarrow> running enc [] l (s\<lparr>messages := message_list_clear (messages s)\<rparr>)"
  using holds_clear by (auto simp: running_def hooks_ok_def)

section \<open>Operations that queue an event of their own\<close>

definition event_bytes :: "host \<Rightarrow> rbkit_event \<Rightarrow> server \<Rightarrow> nat" where
  "event_bytes h ev s = length (packed (host_enc h) (host_clock h, strings_of s, ev))"

lemma send_running:
  assumes r: "running enc vs l s" and e: "host_enc h = enc" and cs: "packs cs [v]"
    and room: "queued_bytes s + length (emit enc cs) \<le> 2 ^ 63"
  shows "\<exists>s'. send_message h (emit enc cs) s = Inr s' \<and> running enc (vs @ [v]) l s'
    \<and> s' = s\<lparr>messages := messages s', jobs := jobs s'\<rparr>"
proof -
  from r e have "holds (host_enc h) vs (messages s)" by (simp add: running_def)
  from send_message_holds [OF this cs] room e obtain s' where
    s': "send_message h (emit enc cs) s = Inr s'" "holds enc (vs @ [v]) (messages s')"
    and fr: "s' = s\<lparr>messages := messages s', jobs := jobs s'\<rparr>" by blast
  have "logger s' = logger s" "tracepoints s' = tracepoints s" "logger_number s' = logger_number s"
    by (subst fr; simp)+
  with r s'(2) have "running enc (vs @ [v]) l s'" by (simp add: running_def hooks_ok_def)
  with s'(1) fr show ?thesis by blast
qed

lemma queue_event_running:
  assumes r: "running enc vs l s" and e: "host_enc h = enc" and ok: "event_ok (lg_str_table l) ev"
    and room: "queued_bytes s + event_bytes h ev s \<le> 2 ^ 63"
  shows "\<exists>buf ev' s'. pack_fresh h ev s = Inr (buf, ev', s) \<and> send_message h buf s = Inr s'
    \<and> running enc (vs @ [event_value (host_clock h) (lg_str_table l) ev]) l s'
    \<and> s' = s\<lparr>messages := messages s', jobs := jobs s'\<rparr>"
proof -
  from r have tbl: "strings_of s = lg_str_table l" by (simp add: strings_of_def running_def)
  from pack_event_calls [OF ok, of "host_clock h"] obtain cs ev' where
    p: "\<And>enc counter. pack_event enc (host_clock h) (lg_str_table l) counter ev = Inr (emit enc cs, ev', counter)"
      "packs cs [event_value (host_clock h) (lg_str_table l) ev]" by blast
  then have "event_bytes h ev s = length (emit enc cs)"
    by (simp add: event_bytes_def packed_def tbl e)
  with send_running [OF r e p(2)] room p(1) e tbl show ?thesis
    by (simp add: pack_fresh_def)
qed

text \<open>A hash whose strings Ruby can hand to C.\<close>

definition hash_ok :: "rb_hash \<Rightarrow> bool" where
  "hash_ok hash \<longleftrightarrow> length hash < 2 ^ 31 \<and> list_all (\<lambda>(k, v). object_ok k \<and> object_ok v) hash"

text \<open>Packing a hash under any event type either fails or makes one frame.\<close>

lemma pack_hash_any_type:
  assumes "hash_ok hash" and "pack_event enc clk tbl counter (new_rbkit_hash_event t hash) = Inr (buf, ev', c)"
  shows "c = counter \<and> (\<exists>cs v. buf = emit enc cs \<and> packs cs [v])"
proof -
  from packs_hash [of hash clk t tbl] assms(1) obtain cs where
    "pack_hash_event clk t hash = Inr cs" "packs cs [event_value clk tbl (Hash_event t hash)]"
    by (auto simp: hash_ok_def)
  with assms(2) packs_header_only [of clk t] show ?thesis
    by (auto simp: pack_event_def new_rbkit_hash_event_def Let_def
      split: option.splits rbkit_event_type.splits)
qed

lemma send_hash_running:
  assumes r: "running enc vs l s" and e: "host_enc h = enc" and ok: "hash_ok hash"
    and res: "send_hash_as_event h hash t s = Inr (x, s')"
    and room: "\<And>buf ev' c t'. FIX2INT t = Inr t' \<Longrightarrow>
      pack_event enc (host_clock h) (strings_of s) (message_counter s) (new_rbkit_hash_event t' hash)
        = Inr (buf, ev', c) \<Longrightarrow> queued_bytes s + length buf \<le> 2 ^ 63"
  shows "\<exists>v. running enc (vs @ [v]) l s' \<and> cpu_profiler s' = cpu_profiler s"
proof -
  from r have "logger s \<noteq> None" by (simp add: running_def)
  with res obtain t' buf ev' c s1 where t: "FIX2INT t = Inr t'"
    and p: "pack_event enc (host_clock h) (strings_of s) (message_counter s) (new_rbkit_hash_event t' hash)
        = Inr (buf, ev', c)"
    and s1: "send_message h buf (s\<lparr>message_counter := c\<rparr>) = Inr s'"
    by (auto simp: send_hash_as_event_def pack_fresh_def and_then_eq_Inr e)
  from pack_hash_any_type [OF ok p] obtain cs v where c: "c = message_counter s"
    "buf = emit enc cs" "packs cs [v]" by blast
  then have "s\<lparr>message_counter := c\<rparr> = s" by simp
  with s1 have s1: "send_message h buf s = Inr s'" by simp
  from send_running [OF r e c(3)] room [OF t p] c(2) obtain s2 where
    "send_message h buf s = Inr s2" "running enc (vs @ [v]) l s2"
    and fr: "s2 = s\<lparr>messages := messages s2, jobs := jobs s2\<rparr>" by auto
  moreover have "cpu_profiler s2 = cpu_profiler s" by (subst fr) simp
  ultimately show ?thesis using s1 by auto
qed

text \<open>The sampling job, while the server runs.\<close>

lemma sampling_job_running:
  assumes r: "running enc vs l s" and e: "host_enc h = enc"
    and smp: "sampling_job_sample frames tid = Inr smp"
    and ok: "event_ok (lg_str_table l) (new_rbkit_cpu_sample_event smp)"
    and room: "queued_bytes s + event_bytes h (new_rbkit_cpu_sample_event smp) s \<le> 2 ^ 63"
    and f: "queue_func_set (cpu_profiler s)"
  shows "\<exists>s'. sampling_job_handler h frames tid s = Inr s'
    \<and> running enc (vs @ [event_value (host_clock h) (lg_str_table l) (new_rbkit_cpu_sample_event smp)]) l s'
    \<and> cpu_profiler s' = cpu_profiler s"
proof -
  from queue_event_running [OF r e ok room] obtain buf ev' s' where
    "pack_fresh h (new_rbkit_cpu_sample_event smp) s = Inr (buf, ev', s)" "send_message h buf s = Inr s'"
    "running enc (vs @ [event_value (host_clock h) (lg_str_table l) (new_rbkit_cpu_sample_event smp)]) l s'"
    and fr: "s' = s\<lparr>messages := messages s', jobs := jobs s'\<rparr>" by blast
  moreover have "cpu_profiler s' = cpu_profiler s" by (subst fr) simp
  ultimately show ?thesis using smp f
    by (simp add: sampling_job_handler_def queue_cpu_sample_for_sending_def)
qed

text \<open>The sampling job after the server has stopped: nothing it could queue into.\<close>

lemma queue_message_no_array:
  assumes m: "\<And>b. message_array m \<noteq> Array b" and "total_capacity m = 0" "used_memsize m = 0"
  shows "\<exists>e. queue_message buf m = Inl e"
proof (rule ccontr)
  let ?sz = "of_nat (length buf) :: size_t"
  assume "\<nexists>e. queue_message buf m = Inl e"
  then obtain m' where "queue_message buf m = Inr m'" by (cases "queue_message buf m") auto
  then obtain m1 a where g: "grow_loop ?sz m = Some (Inr m1)"
    and a: "memcpy_at (message_array m1) (unat (used_memsize m1)) buf = Inr a"
    by (auto simp: queue_message_def Let_def and_then_eq_Inr split: option.splits)
  let ?P = "\<lambda>r :: c_error + message_list. (\<exists>e. r = Inl e) \<or> (\<exists>m. r = Inr m \<and> total_capacity m = 0 \<and> used_memsize m = 0)"
  have step: "?P (and_then r double_the_capacity)" if "?P r" for r
    using that by (auto simp: double_the_capacity_def Let_def split: array_pointer.splits)
  have "?P (Inr m1)"
  proof (rule while_option_rule [where P = ?P, OF _ g [unfolded grow_loop_def]])
    show "?P (and_then r double_the_capacity)" if "?P r" for r using that by (rule step)
    show "?P (Inr m)" using assms(2,3) by simp
  qed
  moreover have "has_enough_space_for ?sz m1"
    using g unfolding grow_loop_def by (auto dest: while_option_stop)
  ultimately have "?sz = 0" using assms by (auto simp: has_enough_space_for_def)
  then have "has_enough_space_for ?sz m" by (simp add: has_enough_space_for_def)
  from grow_loop_done [OF this] g have "m1 = m" by simp
  with a m show False by (auto simp: memcpy_at_def split: array_pointer.splits)
qed

lemma sampling_job_stopped:
  assumes "stopped s" shows "\<exists>e. sampling_job_handler h frames tid s = Inl e"
proof (rule ccontr)
  assume "\<nexists>e. sampling_job_handler h frames tid s = Inl e"
  then obtain s' where "sampling_job_handler h frames tid s = Inr s'"
    by (cases "sampling_job_handler h frames tid s") auto
  then obtain buf m where "queue_message buf (messages s) = Inr m"
    by (auto simp: sampling_job_handler_def queue_cpu_sample_for_sending_def pack_fresh_def
      send_message_def and_then_eq_Inr Let_def split: if_splits)
  with queue_message_no_array [of "messages s" buf] assms show False by (auto simp: stopped_def)
qed

section \<open>The reachable states\<close>

definition vm_room :: "(mp_call \<Rightarrow> byte list) \<Rightarrow> host \<Rightarrow> vm_event \<Rightarrow> server \<Rightarrow> bool" where
  "vm_room enc h ev s \<longleftrightarrow> host_enc h = enc \<and> vm_ok h ev
     \<and> (\<forall>l. logger s = Some l \<longrightarrow> card (dom (lg_object_table l)) < 2 ^ 62)
     \<and> queued_bytes s + length (emit enc (vm_calls h ev)) \<le> 2 ^ 63"

definition hash_room :: "(mp_call \<Rightarrow> byte list) \<Rightarrow> host \<Rightarrow> rb_hash \<Rightarrow> server \<Rightarrow> bool" where
  "hash_room enc h hash s \<longleftrightarrow> host_enc h = enc \<and> hash_ok hash
     \<and> (\<forall>t buf ev' c. pack_event enc (host_clock h) (strings_of s) (message_counter s)
           (new_rbkit_hash_event t hash) = Inr (buf, ev', c) \<longrightarrow> queued_bytes s + length buf \<le> 2 ^ 63)"

definition sample_room :: "(mp_call \<Rightarrow> byte list) \<Rightarrow> host \<Rightarrow> rbkit_cpu_sample \<Rightarrow> server \<Rightarrow> bool" where
  "sample_room enc h smp s \<longleftrightarrow> host_enc h = enc
     \<and> event_ok (strings_of s) (new_rbkit_cpu_sample_event smp)
     \<and> queued_bytes s + event_bytes h (new_rbkit_cpu_sample_event smp) s \<le> 2 ^ 63"

definition dump_room :: "(mp_call \<Rightarrow> byte list) \<Rightarrow> host \<Rightarrow> ruby_heap \<Rightarrow> server \<Rightarrow> bool" where
  "dump_room enc h hp s \<longleftrightarrow> host_enc h = enc \<and> heap_ok (host_vm h) hp
     \<and> live_objects (host_vm h) hp \<noteq> [] \<and> length (live_objects (host_vm h) hp) < 2 ^ 63
     \<and> (\<forall>l. logger s = Some l \<longrightarrow>
          vm_fits (host_vm h) (lg_str_table l) (lg_object_table l)
        \<and> queued_bytes s + dump_bytes enc (host_clock h) (lg_str_table l) (correlation_id s + 1)
            (of_nat (length (live_objects (host_vm h) hp)))
            (map (object_data_of (host_vm h) (lg_object_table l)) (live_objects (host_vm h) hp)) \<le> 2 ^ 63)"

text \<open>
  One rule for each way the state changes. The Ruby class starts only a stopped server,
  runs the other operations only on a running one and, as long as it is used in its
  sampling mode, stops the CPU profiler before it stops the server (a stop with the
  profiler on, which another mode allows, is not among these states; the properties of the
  Ruby class have a claim on it); the VM and the kernel act at any time, and the Ruby code of a callback
  leaves the server alone. The premises that speak of room keep the queue under \<open>2 ^ 63\<close>
  bytes.
\<close>

inductive reachable :: "(mp_call \<Rightarrow> byte list) \<Rightarrow> server \<Rightarrow> bool" for enc where
  reach_init: "reachable enc server_init"
| reach_start: "reachable enc s \<Longrightarrow> logger s = None \<Longrightarrow> start_stat_server z p q s = Inr (ok, s') \<Longrightarrow>
    reachable enc s'"
| reach_stop: "reachable enc s \<Longrightarrow> logger s = Some l \<Longrightarrow> \<not> lg_sampling_profiler_enabled l \<Longrightarrow>
    stop_stat_server s = Inr s' \<Longrightarrow> reachable enc s'"
| reach_trace_on: "reachable enc s \<Longrightarrow> start_stat_tracing s = Inr s' \<Longrightarrow> reachable enc s'"
| reach_trace_off: "reachable enc s \<Longrightarrow> stop_stat_tracing s = Inr s' \<Longrightarrow> reachable enc s'"
| reach_profile_on: "reachable enc s \<Longrightarrow> start_sampling_profiler c i s = Inr s' \<Longrightarrow> reachable enc s'"
| reach_profile_off: "reachable enc s \<Longrightarrow> stop_sampling_profiler s = Inr s' \<Longrightarrow> reachable enc s'"
| reach_vm: "reachable enc s \<Longrightarrow> vm_room enc h ev s \<Longrightarrow> fire h ev s = Inr s' \<Longrightarrow> reachable enc s'"
| reach_hash: "reachable enc s \<Longrightarrow> hash_room enc h hash s \<Longrightarrow>
    send_hash_as_event h hash t s = Inr (x, s') \<Longrightarrow> reachable enc s'"
| reach_dump: "reachable enc s \<Longrightarrow> dump_room enc h hp s \<Longrightarrow>
    send_objectspace_dump h (map snd hp) s = Inr s' \<Longrightarrow> reachable enc s'"
| reach_flush: "reachable enc s \<Longrightarrow> reachable enc (send_messages h s)"
| reach_timer: "reachable enc s \<Longrightarrow> reachable enc (timer_expires h w s)"
| reach_publish: "reachable enc s \<Longrightarrow> jobs s = Publish_job # js \<Longrightarrow>
    run_job h frames tid (only_raises b) s = Inr s' \<Longrightarrow> reachable enc s'"
| reach_sample: "reachable enc s \<Longrightarrow> jobs s = Sampling_job # js \<Longrightarrow>
    (\<And>smp. sampling_job_sample frames tid = Inr smp \<Longrightarrow> sample_room enc h smp s) \<Longrightarrow>
    run_job h frames tid during s = Inr s' \<Longrightarrow> reachable enc s'"
| reach_callback: "reachable enc s \<Longrightarrow> reachable enc (s\<lparr>publish_callback := b, respond_callback := b'\<rparr>)"
| reach_respond: "reachable enc s \<Longrightarrow> respond_with_message (only_raises b) buf s = Inr (x, s') \<Longrightarrow>
    reachable enc s'"
| reach_poll: "reachable enc s \<Longrightarrow> poll_for_request revents frame s = Inr (cmd, s') \<Longrightarrow> reachable enc s'"
| reach_take: "reachable enc s \<Longrightarrow> get_queued_messages h (only_raises b) s = Inr (r, s') \<Longrightarrow> reachable enc s'"
| reach_test_on: "reachable enc s \<Longrightarrow> reachable enc (enable_test_mode s)"
| reach_test_off: "reachable enc s \<Longrightarrow> reachable enc (disable_test_mode s)"

text \<open>The invariant.\<close>

definition sampling_on :: "server \<Rightarrow> bool" where
  "sampling_on s \<longleftrightarrow> (\<exists>l. logger s = Some l \<and> lg_sampling_profiler_enabled l)"

definition profiler_ok :: "bool \<Rightarrow> profiler \<Rightarrow> bool" where
  "profiler_ok on p \<longleftrightarrow> no_fatal_timer p
     \<and> (\<forall>w. armed p w \<longrightarrow> on \<and> w = profiler.clock_type p) \<and> (on \<longrightarrow> queue_func_set p)"

definition sound :: "(mp_call \<Rightarrow> byte list) \<Rightarrow> server \<Rightarrow> bool" where
  "sound enc s \<longleftrightarrow>
     (stopped s \<or> (\<exists>vs l. running enc vs l s)) \<and> profiler_ok (sampling_on s) (cpu_profiler s)"

lemma profiler_ok_install:
  "profiler_ok False p \<Longrightarrow> profiler_ok True (rbkit_install_sampling_profiler wall i p)"
  using profiler_step_no_fatal [of p "Install wall i"]
  by (auto simp: profiler_ok_def) (auto simp: profiler_defs split: if_splits)

lemma profiler_ok_uninstall:
  "profiler_ok True p \<Longrightarrow> profiler_ok False (rbkit_uninstall_sampling_profiler p)"
  using profiler_step_no_fatal [of p Uninstall]
  by (auto simp: profiler_ok_def) (auto simp: profiler_defs split: if_splits)

lemma sound_cong:
  "sound enc s \<Longrightarrow> logger s' = logger s \<Longrightarrow> tracepoints s' = tracepoints s \<Longrightarrow>
   logger_number s' = logger_number s \<Longrightarrow> messages s' = messages s \<Longrightarrow>
   cpu_profiler s' = cpu_profiler s \<Longrightarrow> sound enc s'"
  using stopped_cong [of s' s] running_cong [of s' s] by (simp add: sound_def sampling_on_def)

lemma running_logger: "running enc vs l s \<Longrightarrow> logger s = Some l"
  by (simp add: running_def)

lemma sound_running:
  "running enc vs l s \<Longrightarrow> profiler_ok (lg_sampling_profiler_enabled l) (cpu_profiler s) \<Longrightarrow> sound enc s"
  by (auto simp: sound_def sampling_on_def dest: running_logger)

lemma sound_cases:
  assumes "sound enc s"
  obtains "stopped s" "profiler_ok False (cpu_profiler s)"
  | vs l where "running enc vs l s" "profiler_ok (lg_sampling_profiler_enabled l) (cpu_profiler s)"
proof -
  from assms consider "stopped s" | vs l where "running enc vs l s" by (auto simp: sound_def)
  then show ?thesis
  proof cases
    case 1
    then have "\<not> sampling_on s" by (simp add: sampling_on_def stopped_def)
    with 1 assms that(1) show ?thesis by (simp add: sound_def)
  next
    case 2
    with assms that(2) [OF 2] show ?thesis
      by (auto simp: sound_def sampling_on_def dest: running_logger)
  qed
qed

lemma sound_logger:
  assumes "sound enc s" and "logger s \<noteq> None"
  obtains vs l where "running enc vs l s" "profiler_ok (lg_sampling_profiler_enabled l) (cpu_profiler s)"
  using assms by (auto elim!: sound_cases simp: stopped_def)

section \<open>Every operation keeps the invariant\<close>

lemma sound_init: "sound enc server_init"
  using stopped_init
  by (simp add: sound_def profiler_ok_def no_fatal_timer_def server_init_def profiler_init_def
    sampling_on_def armed_def timer_off_def)

lemma profiler_ok_expire: "profiler_ok on p \<Longrightarrow> armed p w \<Longrightarrow> profiler_ok on (expire w p)"
  using armed_expire [of p w] unfolding profiler_ok_def no_fatal_timer_def rbkit_frame by metis

lemma sound_timer [rbkit_inv]:
  assumes "sound enc s"
  shows "sound enc (timer_expires h w s)"
proof -
  let ?s = "timer_expires h w s"
  have "sampling_on ?s = sampling_on s" by (simp add: sampling_on_def rbkit_frame)
  moreover have "profiler_ok on (cpu_profiler ?s)" if "profiler_ok on (cpu_profiler s)" for on
    using that profiler_ok_expire by (simp add: rbkit_frame)
  ultimately show ?thesis
    using assms stopped_cong [of ?s s] running_cong [of ?s s] by (simp add: sound_def rbkit_frame)
qed

lemma sound_start [rbkit_inv]:
  assumes "sound enc s" "logger s = None" "start_stat_server z p q s = Inr (ok, s')"
  shows "sound enc s'"
proof -
  from assms(1,2) have st: "stopped s" and p: "profiler_ok False (cpu_profiler s)"
    by (auto elim!: sound_cases dest: running_logger)
  from start_stat_server_result [OF st assms(3), of enc] have c: "cpu_profiler s' = cpu_profiler s"
    and r: "if ok then \<exists>l. running enc [] l s' \<and> \<not> lg_sampling_profiler_enabled l else stopped s'"
    by (auto split: if_splits)
  show ?thesis
  proof (cases ok)
    case True
    with r obtain l where "running enc [] l s'" "\<not> lg_sampling_profiler_enabled l" by auto
    with p c show ?thesis by (auto intro: sound_running)
  next
    case False
    with r p c show ?thesis by (simp add: sound_def sampling_on_def stopped_def)
  qed
qed

lemma sound_stop [rbkit_inv]:
  assumes "sound enc s" "logger s = Some l" "\<not> lg_sampling_profiler_enabled l" "stop_stat_server s = Inr s'"
  shows "sound enc s'"
proof -
  from assms(1,2) obtain vs l' where r': "running enc vs l' s"
    and p': "profiler_ok (lg_sampling_profiler_enabled l') (cpu_profiler s)" by (auto elim: sound_logger)
  then have r: "running enc vs l s" and p: "profiler_ok False (cpu_profiler s)"
    using assms(2,3) running_logger [OF r'] by auto
  from stop_stat_server_running [OF r] assms(4) have "stopped s'" "cpu_profiler s' = cpu_profiler s" by auto
  with p show ?thesis by (simp add: sound_def sampling_on_def stopped_def)
qed

lemma no_logger_error: "logger s = None \<Longrightarrow> the_logger s = Inl Null_dereference"
  by (simp add: the_logger_def)

lemma sound_trace [rbkit_inv]:
  assumes "sound enc s" and "start_stat_tracing s = Inr s' \<or> stop_stat_tracing s = Inr s'"
  shows "sound enc s'"
proof (cases "logger s")
  case None
  with assms(2) show ?thesis by (auto simp: start_stat_tracing_def stop_stat_tracing_def no_logger_error)
next
  case (Some l0)
  then obtain vs l where r: "running enc vs l s"
    and p: "profiler_ok (lg_sampling_profiler_enabled l) (cpu_profiler s)"
    using assms(1) by (auto elim: sound_logger)
  obtain b where r': "running enc vs (l\<lparr>lg_enabled := b\<rparr>) s'"
    and fr: "s' = s\<lparr>tracepoints := tracepoints s', logger := logger s'\<rparr>"
    using start_stat_tracing_running [OF r] stop_stat_tracing_running [OF r] assms(2) by auto
  have "cpu_profiler s' = cpu_profiler s" by (subst fr) simp
  with r' p show ?thesis by (auto intro: sound_running)
qed

lemma sound_profile_on [rbkit_inv]:
  assumes "sound enc s" and res: "start_sampling_profiler c i s = Inr s'"
  shows "sound enc s'"
proof (cases "logger s")
  case None
  with res show ?thesis by (simp add: start_sampling_profiler_def no_logger_error)
next
  case (Some l0)
  then obtain vs l where r: "running enc vs l s"
    and p: "profiler_ok (lg_sampling_profiler_enabled l) (cpu_profiler s)"
    using assms(1) by (auto elim: sound_logger)
  show ?thesis
  proof (cases "lg_sampling_profiler_enabled l")
    case True
    with res r assms(1) show ?thesis
      by (simp add: start_sampling_profiler_def the_logger_def running_def)
  next
    case False
    with res r obtain wall usec where
      s': "s' = set_sampling True (s\<lparr>cpu_profiler := rbkit_install_sampling_profiler wall usec (cpu_profiler s)\<rparr>)"
      by (auto simp: start_sampling_profiler_def the_logger_def running_def and_then_eq_Inr split: option.splits)
    from p False profiler_ok_install have
      "profiler_ok True (rbkit_install_sampling_profiler wall usec (cpu_profiler s))" by simp
    with set_sampling_running [OF r] s' show ?thesis
      by (intro sound_running [of enc vs "l\<lparr>lg_sampling_profiler_enabled := True\<rparr>"])
        (simp_all add: set_sampling_def)
  qed
qed

lemma sound_profile_off [rbkit_inv]:
  assumes "sound enc s" and res: "stop_sampling_profiler s = Inr s'"
  shows "sound enc s'"
proof (cases "logger s")
  case None
  with res show ?thesis by (simp add: stop_sampling_profiler_def no_logger_error)
next
  case (Some l0)
  then obtain vs l where r: "running enc vs l s"
    and p: "profiler_ok (lg_sampling_profiler_enabled l) (cpu_profiler s)"
    using assms(1) by (auto elim: sound_logger)
  show ?thesis
  proof (cases "lg_sampling_profiler_enabled l")
    case False
    with res r assms(1) show ?thesis
      by (simp add: stop_sampling_profiler_def the_logger_def running_def)
  next
    case True
    with res r have
      s': "s' = set_sampling False (s\<lparr>cpu_profiler := rbkit_uninstall_sampling_profiler (cpu_profiler s)\<rparr>)"
      by (simp add: stop_sampling_profiler_def the_logger_def running_def)
    from p True profiler_ok_uninstall have
      "profiler_ok False (rbkit_uninstall_sampling_profiler (cpu_profiler s))" by simp
    with set_sampling_running [OF r] s' show ?thesis
      by (intro sound_running [of enc vs "l\<lparr>lg_sampling_profiler_enabled := False\<rparr>"])
        (simp_all add: set_sampling_def)
  qed
qed

lemma sound_vm:
  assumes "sound enc s" and room: "vm_room enc h ev s"
  shows "\<exists>s'. fire h ev s = Inr s' \<and> sound enc s'"
  using assms(1)
proof (cases rule: sound_cases)
  case 1
  with assms(1) show ?thesis by (simp add: fire_off)
next
  case (2 vs l)
  show ?thesis
  proof (cases "lg_enabled l")
    case False
    with fire_running [OF 2(1)] room assms(1) show ?thesis by (simp add: vm_room_def)
  next
    case True
    from room running_logger [OF 2(1)] have pre: "host_enc h = enc" "vm_ok h ev"
      "card (dom (lg_object_table l)) < 2 ^ 62"
      "queued_bytes s + length (emit enc (vm_calls h ev)) \<le> 2 ^ 63" by (auto simp: vm_room_def)
    from fire_step [OF 2(1) True pre] obtain s' l' where
      s': "fire h ev s = Inr s'" "running enc (vs @ [vm_frame h ev]) l' s'"
        "lg_sampling_profiler_enabled l' = lg_sampling_profiler_enabled l"
      and fr: "s' = s\<lparr>logger := logger s', messages := messages s', jobs := jobs s'\<rparr>" by blast
    have c: "cpu_profiler s' = cpu_profiler s" by (subst fr) simp
    with s' c 2(2) show ?thesis by (auto intro: sound_running)
  qed
qed

lemma sound_hash [rbkit_inv]:
  assumes "sound enc s" and room: "hash_room enc h hash s"
    and res: "send_hash_as_event h hash t s = Inr (x, s')"
  shows "sound enc s'"
proof (cases "logger s")
  case None
  with res assms(1) show ?thesis by (simp add: send_hash_as_event_def)
next
  case (Some l0)
  then obtain vs l where r: "running enc vs l s"
    and p: "profiler_ok (lg_sampling_profiler_enabled l) (cpu_profiler s)"
    using assms(1) by (auto elim: sound_logger)
  from room have "host_enc h = enc" "hash_ok hash" by (simp_all add: hash_room_def)
  moreover have "queued_bytes s + length buf \<le> 2 ^ 63"
    if "pack_event enc (host_clock h) (strings_of s) (message_counter s) (new_rbkit_hash_event t' hash)
        = Inr (buf, ev', c)" for buf ev' c t'
    using room that unfolding hash_room_def by blast
  ultimately obtain v where "running enc (vs @ [v]) l s'" "cpu_profiler s' = cpu_profiler s"
    using send_hash_running [OF r _ _ res] by blast
  with p show ?thesis by (auto intro: sound_running)
qed

lemma sound_dump [rbkit_inv]:
  assumes "sound enc s" and room: "dump_room enc h hp s"
    and res: "send_objectspace_dump h (map snd hp) s = Inr s'"
  shows "sound enc s'"
proof (cases "logger s")
  case None
  with res show ?thesis by (simp add: send_objectspace_dump_def no_logger_error)
next
  case (Some l0)
  then obtain vs l where r: "running enc vs l s"
    and p: "profiler_ok (lg_sampling_profiler_enabled l) (cpu_profiler s)"
    using assms(1) by (auto elim: sound_logger)
  let ?recs = "map (object_data_of (host_vm h) (lg_object_table l)) (live_objects (host_vm h) hp)"
  from send_objectspace_dump_running [OF r, of h hp ?recs] room running_logger [OF r]
  obtain s1 vs' where s1: "send_objectspace_dump h (map snd hp) s = Inr s1" "running enc vs' l s1"
    and fr: "s1 = s\<lparr>correlation_id := correlation_id s + 1, messages := messages s1, jobs := jobs s1\<rparr>"
    by (auto simp: dump_room_def)
  have "cpu_profiler s1 = cpu_profiler s" by (subst fr) simp
  with s1 res p show ?thesis by (auto intro: sound_running)
qed

lemma sound_clear:
  assumes "sound enc s"
    and m: "messages s' = messages s \<or> messages s' = message_list_clear (messages s)"
    and f: "logger s' = logger s" "tracepoints s' = tracepoints s" "logger_number s' = logger_number s"
      "cpu_profiler s' = cpu_profiler s"
  shows "sound enc s'"
  using m
proof
  assume "messages s' = messages s"
  with f assms(1) show ?thesis by (intro sound_cong [OF assms(1)]) simp_all
next
  assume m: "messages s' = message_list_clear (messages s)"
  let ?s = "s\<lparr>messages := message_list_clear (messages s)\<rparr>"
  from assms(1) have "sound enc ?s"
  proof (cases rule: sound_cases)
    case 1
    then have "stopped ?s" by (simp add: stopped_def message_list_clear_def)
    with assms(1) show ?thesis by (simp add: sound_def sampling_on_def)
  next
    case (2 vs l)
    with running_clear [OF 2(1)] show ?thesis by (auto intro: sound_running)
  qed
  then show ?thesis by (rule sound_cong) (simp_all add: f m)
qed

lemma sound_publish [rbkit_inv]:
  assumes "sound enc s" "jobs s = Publish_job # js" "run_job h frames tid (only_raises b) s = Inr s'"
  shows "sound enc s'"
proof -
  have "sound enc (s\<lparr>jobs := js\<rparr>)" by (rule sound_cong [OF assms(1)]) simp_all
  moreover from assms(2,3) have "trigger_publish_callback h (only_raises b) (s\<lparr>jobs := js\<rparr>) = Inr s'"
    by (simp add: run_job_def Let_def)
  from trigger_publish_frame [OF this] have
    "messages s' = messages s \<or> messages s' = message_list_clear (messages s)"
    "logger s' = logger s" "tracepoints s' = tracepoints s" "logger_number s' = logger_number s"
    "cpu_profiler s' = cpu_profiler s" by auto
  ultimately show ?thesis by (intro sound_clear [of enc "s\<lparr>jobs := js\<rparr>" s']) simp_all
qed

lemma sound_sample:
  assumes "sound enc s" "jobs s = Sampling_job # js"
    and room: "\<And>smp. sampling_job_sample frames tid = Inr smp \<Longrightarrow> sample_room enc h smp s"
    and res: "run_job h frames tid during s = Inr s'"
  shows "sound enc s'"
proof -
  let ?s = "s\<lparr>jobs := js\<rparr>"
  have "sound enc ?s" by (rule sound_cong [OF assms(1)]) simp_all
  moreover from assms(2) res have res': "sampling_job_handler h frames tid ?s = Inr s'"
    by (simp add: run_job_def Let_def)
  ultimately obtain vs l where r: "running enc vs l ?s"
    and p: "profiler_ok (lg_sampling_profiler_enabled l) (cpu_profiler s)"
    using sampling_job_stopped [of ?s h frames tid] by (auto elim!: sound_cases)
  from res' obtain smp where smp: "sampling_job_sample frames tid = Inr smp"
    and f: "queue_func_set (cpu_profiler ?s)"
    by (auto simp: sampling_job_handler_def and_then_eq_Inr split: if_splits)
  have st: "strings_of ?s = lg_str_table l" using running_logger [OF r] by (simp add: strings_of_def)
  have eb: "event_bytes h ev ?s = event_bytes h ev s" for ev
    by (simp add: event_bytes_def strings_of_def)
  have "strings_of ?s = strings_of s" by (simp add: strings_of_def)
  with room [OF smp] st have pre: "host_enc h = enc"
    "event_ok (lg_str_table l) (new_rbkit_cpu_sample_event smp)"
    "queued_bytes ?s + event_bytes h (new_rbkit_cpu_sample_event smp) ?s \<le> 2 ^ 63"
    by (simp_all add: sample_room_def eb queued_bytes_def)
  from sampling_job_running [OF r pre(1) smp pre(2,3) f] res' obtain vs' where
    "running enc vs' l s'" "cpu_profiler s' = cpu_profiler ?s" by auto
  with p show ?thesis by (auto intro: sound_running)
qed

lemma respond_frame:
  "respond_with_message (only_raises b) buf s = Inr (raised, s') \<Longrightarrow>
     logger s' = logger s \<and> tracepoints s' = tracepoints s \<and> logger_number s' = logger_number s
     \<and> messages s' = messages s \<and> cpu_profiler s' = cpu_profiler s"
  by (auto simp: respond_with_message_def only_raises_def log_zmq_def Let_def split: option.splits if_splits)

lemma poll_frame:
  "poll_for_request revents frame s = Inr (cmd, s') \<Longrightarrow>
     logger s' = logger s \<and> tracepoints s' = tracepoints s \<and> logger_number s' = logger_number s
     \<and> messages s' = messages s \<and> cpu_profiler s' = cpu_profiler s"
  by (auto simp: poll_for_request_def tracer_string_recv_def log_zmq_def and_then_eq_Inr
    split: option.splits if_splits)

lemma get_queued_frame:
  "get_queued_messages h (only_raises b) s = Inr (r, s') \<Longrightarrow>
     logger s' = logger s \<and> tracepoints s' = tracepoints s \<and> logger_number s' = logger_number s
     \<and> (messages s' = messages s \<or> messages s' = message_list_clear (messages s))
     \<and> cpu_profiler s' = cpu_profiler s"
  by (auto simp: get_queued_messages_def only_raises_def and_then_eq_Inr Let_def split: if_splits)

lemma reachable_sound: "reachable enc s \<Longrightarrow> sound enc s"
proof (induction rule: reachable.induct)
  case reach_init
  show ?case by (rule sound_init)
next
  case reach_start
  then show ?case by (blast intro: rbkit_inv)
next
  case reach_stop
  then show ?case by (blast intro: rbkit_inv)
next
  case reach_trace_on
  then show ?case by (blast intro: rbkit_inv)
next
  case reach_trace_off
  then show ?case by (blast intro: rbkit_inv)
next
  case reach_profile_on
  then show ?case by (blast intro: rbkit_inv)
next
  case reach_profile_off
  then show ?case by (blast intro: rbkit_inv)
next
  case reach_vm
  then show ?case using sound_vm by fastforce
next
  case reach_hash
  then show ?case by (blast intro: rbkit_inv)
next
  case reach_dump
  then show ?case by (blast intro: rbkit_inv)
next
  case (reach_flush s h)
  from reach_flush.IH show ?case by (rule sound_cong) (simp_all add: rbkit_frame)
next
  case (reach_timer s h w)
  from reach_timer.IH show ?case by (rule sound_timer)
next
  case reach_publish
  then show ?case by (blast intro: rbkit_inv)
next
  case (reach_sample s js frames tid h during s')
  from sound_sample [OF reach_sample.IH reach_sample.hyps(2,3,4)] show ?case .
next
  case (reach_callback s b b')
  from reach_callback.IH show ?case by (rule sound_cong) simp_all
next
  case (reach_respond s b buf x s')
  from respond_frame [OF reach_respond.hyps(2)] reach_respond.IH show ?case
    by (auto intro: sound_cong)
next
  case (reach_poll s revents frame cmd s')
  from poll_frame [OF reach_poll.hyps(2)] reach_poll.IH show ?case by (auto intro: sound_cong)
next
  case (reach_take s h r s')
  from get_queued_frame [OF reach_take.hyps(2)] reach_take.IH show ?case by (auto intro: sound_clear)
next
  case (reach_test_on s)
  from reach_test_on.IH show ?case by (rule sound_cong) (simp_all add: enable_test_mode_def)
next
  case (reach_test_off s)
  from reach_test_off.IH show ?case by (rule sound_cong) (simp_all add: disable_test_mode_def)
qed

end
