(* ===== verification/Server_Properties.thy ===== *)
theory Server_Properties
  imports Server_Reachable
begin

text \<open>
  The properties of the server as a whole: what a client receives of a tracing session,
  the safety of every reachable state, the timers, the batches, the handshake and the
  requests, and the cases the code does not handle (long ports, a restart without a
  publisher, Ruby code that runs during a publication, a job left behind by a stop).
\<close>

section \<open>A start that succeeds\<close>

text \<open>Both ports in the range of \<open>int\<close> and short enough for the endpoint buffer.\<close>

lemma FIX2INT_small: "0 \<le> i \<Longrightarrow> i < 10000 \<Longrightarrow> \<exists>w. FIX2INT (Some i) = Inr w \<and> sint w = i"
  by (simp add: FIX2INT_def signed_of_int signed_take_bit_int_eq_self)

lemma VALUE_of_nonzero: "VALUE_of v \<noteq> 0"
proof (cases v)
  case (Some i)
  have "odd (2 * i + 1)" by simp
  then have "bit (of_int (2 * i + 1) :: VALUE) 0"
    by (simp add: bit_of_int_iff bit_0)
  then show ?thesis using Some by (auto simp: VALUE_of_def simp del: of_int_add of_int_mult of_int_1)
qed (simp add: VALUE_of_def)

definition binds :: "zmq_results \<Rightarrow> bool" where
  "binds z \<longleftrightarrow> (\<forall>t e. bind_succeeds z t e)"

lemma start_short:
  assumes st: "stopped s" and z: "binds z" and p: "0 \<le> p" "p < 10000" and q: "0 \<le> q" "q < 10000"
  shows "\<exists>s'. start_stat_server z (Some p) (Some q) s = Inr (True, s')
    \<and> zmq_publisher s' = (if p = 0 then zmq_publisher s else Some (new_socket z ZMQ_PUB))
    \<and> message_counter s' = message_counter s \<and> published s' = published s \<and> jobs s' = jobs s
    \<and> server_instance s' \<and> publish_callback s' = publish_callback s
    \<and> test_mode_enabled s' = test_mode_enabled s
    \<and> zmq_response_socket s' = (if q = 0 then zmq_response_socket s else Some (new_socket z ZMQ_REP))"
proof -
  from FIX2INT_small [OF p] obtain p' where p': "FIX2INT (Some p) = Inr p'" "sint p' = p" by blast
  from FIX2INT_small [OF q] obtain q' where q': "FIX2INT (Some q) = Inr q'" "sint q' = q" by blast
  have sp: "short_port p'" "short_port q'" using p q p' q' by (simp_all add: short_port_def)
  have z0: "p' = 0 \<longleftrightarrow> p = 0" "q' = 0 \<longleftrightarrow> q = 0" using p'(2) q'(2) by (metis signed_eq_0_iff)+
  let ?c = "log_zmq (Zmq_ctx_new (new_context z))
    (s\<lparr>server_instance := True, zmq_context := Some (new_context z)\<rparr>)"
  obtain s1 where o1: "open_publisher z p' ?c = Inr (True, s1)"
    and f1: "logger s1 = logger s" "tracepoints s1 = tracepoints s" "messages s1 = messages s"
      "zmq_publisher s1 = (if p = 0 then zmq_publisher s else Some (new_socket z ZMQ_PUB))"
      "message_counter s1 = message_counter s" "published s1 = published s" "jobs s1 = jobs s"
      "server_instance s1" "publish_callback s1 = publish_callback s"
      "test_mode_enabled s1 = test_mode_enabled s" "zmq_response_socket s1 = zmq_response_socket s"
    using z z0 by (simp add: open_publisher_short [OF sp(1)] binds_def log_zmq_def)
  from open_responder_short [OF sp(2), of z s1] obtain s2 where
    s2: "open_responder z q' s1 = Inr (q' = 0 \<or> bind_succeeds z ZMQ_REP (endpoint q'), s2)"
    and f2: "logger s2 = logger s1" "tracepoints s2 = tracepoints s1" "messages s2 = messages s1"
      "zmq_publisher s2 = zmq_publisher s1" "jobs s2 = jobs s1" "message_counter s2 = message_counter s1"
      "published s2 = published s1" "publish_callback s2 = publish_callback s1"
      "server_instance s2 = server_instance s1" "test_mode_enabled s2 = test_mode_enabled s1"
      "zmq_response_socket s2 = (if q' = 0 then zmq_response_socket s1 else Some (new_socket z ZMQ_REP))"
    by blast
  have o2: "open_responder z q' s1 = Inr (True, s2)" using s2 z by (simp add: binds_def)
  have "stopped s2" using st f1 f2 by (simp add: stopped_def)
  from start_tracker_running [OF this] obtain s3 where
    s3: "start_tracker s2 = Inr s3" "zmq_publisher s3 = zmq_publisher s2" "jobs s3 = jobs s2"
      "published s3 = published s2" "message_counter s3 = message_counter s2"
      "server_instance s3 = server_instance s2" "publish_callback s3 = publish_callback s2"
      "test_mode_enabled s3 = test_mode_enabled s2"
      "zmq_response_socket s3 = zmq_response_socket s2" by metis
  have "start_stat_server z (Some p) (Some q) s = Inr (True, s3)"
    using p' q' o1 o2 s3(1) VALUE_of_nonzero by (simp add: start_stat_server_def Let_def)
  with s3 f1 f2 z0 show ?thesis by simp
qed

section \<open>A tracing session\<close>

lemma reachable_stopped: "reachable enc s \<Longrightarrow> logger s = None \<Longrightarrow> stopped s"
  by (drule reachable_sound) (auto elim!: sound_cases dest: running_logger)

lemma reachable_running:
  assumes "reachable enc s" and "logger s \<noteq> None"
  obtains vs l where "running enc vs l s"
  using sound_logger [OF reachable_sound [OF assms(1)] assms(2)] by metis

text \<open>
  Claim C2. A tracing session from start to publication. After a start that succeeded and
  with tracing on, any sequence of allocations, frees and collector phases is tracked and
  packed without an error; the publication that follows sends one message, over the
  publisher's socket if there is one and to the callback if there is one, that decodes to
  exactly the frames of those events, in order, under the next message counter. After it
  the queue is empty, and the tracked objects are those the events left alive, with the
  data of their last allocation.
\<close>

theorem tracing_session_published:
  assumes "msgpack_codec enc dec" and "reachable enc s" and "logger s = None"
    and "start_stat_server z p q s = Inr (True, s1)"
    and "vm_all_ok enc es" and "es \<noteq> []" and "length es < 2 ^ 32" and "vm_bytes enc es \<le> 2 ^ 63"
    and "host_enc h = enc"
  shows "\<exists>s2 s3 s4 l bytes. start_stat_tracing s1 = Inr s2 \<and> fire_all es s2 = Inr s3
    \<and> trigger_publish_callback h quiet s3 = Inr s4
    \<and> unpack dec bytes = Some (collection_value (host_clock h) (message_counter s3) (frames_of es))
    \<and> zmq_log s4 = zmq_log s3 @ (case zmq_publisher s3 of None \<Rightarrow> [] | Some k \<Rightarrow> [Zmq_send k bytes])
    \<and> published s4 = published s3 @ (if server_instance s3 \<and> publish_callback s3 then [bytes] else [])
    \<and> message_counter s4 = message_counter s3 + 1
    \<and> running enc [] l s4 \<and> logger_view l = fold vm_view (map snd es) (\<lambda>_. None)"
proof -
  from start_stat_server_result [OF reachable_stopped [OF assms(2,3)] assms(4), of enc]
  obtain l1 where r1: "running enc [] l1 s1" and t1: "lg_object_table l1 = (\<lambda>_. None)"
    and b1: "queued_bytes s1 = 0" by auto
  from start_stat_tracing_running [OF r1] obtain s2 where s2: "start_stat_tracing s1 = Inr s2"
    "running enc [] (l1\<lparr>lg_enabled := True\<rparr>) s2"
    and fr2: "s2 = s1\<lparr>tracepoints := tracepoints s2, logger := logger s2\<rparr>" by blast
  have b2: "queued_bytes s2 = 0" by (subst fr2) (use b1 in \<open>simp add: queued_bytes_def\<close>)
  have v: "logger_view (l1\<lparr>lg_enabled := True\<rparr>) = (\<lambda>_. None)" by (simp add: logger_view_def t1)
  from fire_all_running [OF s2(2) _ assms(5)] v b2 assms(7,8) obtain s3 l3 where
    s3: "fire_all es s2 = Inr s3" "running enc (frames_of es) l3 s3"
      "logger_view l3 = fold vm_view (map snd es) (\<lambda>_. None)" by auto
  have m3: "holds (host_enc h) (frames_of es) (messages s3)"
    using s3(2) assms(9) by (simp add: running_def)
  have "frames_of es \<noteq> []" "length (frames_of es) < 2 ^ 32" using assms(6,7) by (simp_all add: frames_of_def)
  from trigger_publish_holds [OF _ m3 this, of dec quiet] assms(1,9) obtain bytes where
    u: "unpack dec bytes = Some (collection_value (host_clock h) (message_counter s3) (frames_of es))"
    and t: "trigger_publish_callback h quiet s3 = and_then (if server_instance s3 \<and> publish_callback s3
                  then quiet (publishing bytes (message_counter s3 + 1) s3)
                  else Inr (False, publishing bytes (message_counter s3 + 1) s3))
          (\<lambda>(raised, s). Inr (if raised then s else s\<lparr>messages := message_list_clear (messages s)\<rparr>))"
    by auto
  let ?p = "publishing bytes (message_counter s3 + 1) s3"
  let ?s4 = "?p\<lparr>messages := message_list_clear (messages ?p)\<rparr>"
  have "trigger_publish_callback h quiet s3 = Inr ?s4" using t by (simp add: quiet_def)
  moreover have "running enc [] l3 ?s4"
    using running_clear [OF s3(2)] by (simp add: running_def hooks_ok_def)
  ultimately show ?thesis using s2(1) s3(1,3) u by fastforce
qed

definition example_zmq :: zmq_results where
  "example_zmq = \<lparr>new_context = 1, new_socket = (\<lambda>t. case t of ZMQ_PUB \<Rightarrow> 2 | ZMQ_REP \<Rightarrow> 3),
     bind_succeeds = (\<lambda>_ _. True)\<rparr>"

lemma example_binds: "binds example_zmq"
  by (simp add: binds_def example_zmq_def)

lemma example_start:
  "\<exists>s. start_stat_server example_zmq (Some 5555) (Some 5556) server_init = Inr (True, s)
     \<and> zmq_publisher s = Some 2 \<and> message_counter s = 0"
  using start_short [OF stopped_init example_binds, of 5555 5556]
  by (auto simp: example_zmq_def server_init_def)

theorem tracing_session_published_witness:
  "\<exists>s1 s2 s3 s4 bytes. start_stat_server example_zmq (Some 5555) (Some 5556) server_init = Inr (True, s1)
    \<and> start_stat_tracing s1 = Inr s2
    \<and> fire_all [(example_host, Gc_started), (example_host, Free_object 40)] s2 = Inr s3
    \<and> trigger_publish_callback example_host quiet s3 = Inr s4
    \<and> unpack ref_dec bytes = Some (collection_value example_clock (message_counter s3)
        [VMap [(VInt 0, VInt 2), (VInt 1, VDouble 1500)],
         VMap [(VInt 0, VInt 1), (VInt 1, VDouble 1500), (VInt 2, VMap [(VInt 3, VInt 20)])]])"
proof -
  let ?es = "[(example_host, Gc_started), (example_host, Free_object 40)]"
  from example_start obtain s1 where
    s1: "start_stat_server example_zmq (Some 5555) (Some 5556) server_init = Inr (True, s1)" by blast
  have ok: "vm_all_ok ref_enc ?es" "?es \<noteq> []" "length ?es < 2 ^ 32" "host_enc example_host = ref_enc"
    by (simp_all add: vm_all_ok_def example_host_def)
  have bytes: "vm_bytes ref_enc ?es \<le> 2 ^ 63"
    by (simp add: vm_bytes_def pack_event_header_only_def pack_obj_destroyed_event_def pack_event_header_def
      pack_timestamp_def)
  have init: "reachable ref_enc server_init" "logger server_init = None"
    by (rule reach_init) (simp add: server_init_def)
  have frames: "frames_of ?es = [VMap [(VInt 0, VInt 2), (VInt 1, VDouble 1500)],
         VMap [(VInt 0, VInt 1), (VInt 1, VDouble 1500), (VInt 2, VMap [(VInt 3, VInt 20)])]]"
    by (simp add: frames_of_def frame_simps example_host_def example_clock_def example_vm_def
      get_wall_time_in_msec_def wall_msec_def)
  from tracing_session_published [OF ref_codec init s1 ok(1,2,3) bytes ok(4)] s1 frames
  show ?thesis by (auto simp: example_host_def)
qed

section \<open>Safety of the reachable states\<close>

text \<open>
  Claim C4. In every reachable state (the profiler being stopped before the server) an event of the VM is handled without an error, and
  when no server runs it reaches no tracepoint at all, in particular none whose logger has
  been freed. While a server runs, tracing can be switched on and off, the CPU profiler
  stopped and the server stopped, all without an error.
\<close>

theorem reachable_states_safe:
  assumes "reachable enc s"
  shows "(vm_room enc h ev s \<longrightarrow> returns (fire h ev s))
    \<and> (logger s = None \<longrightarrow> fire h ev s = Inr s)
    \<and> (logger s \<noteq> None \<longrightarrow> returns (start_stat_tracing s) \<and> returns (stop_stat_tracing s)
         \<and> returns (stop_sampling_profiler s) \<and> returns (stop_stat_server s))"
proof (intro conjI impI)
  assume "vm_room enc h ev s"
  with sound_vm [OF reachable_sound [OF assms]] show "returns (fire h ev s)" by fastforce
next
  assume "logger s = None"
  with reachable_stopped [OF assms] show "fire h ev s = Inr s" by (simp add: fire_off)
next
  assume "logger s \<noteq> None"
  with assms obtain vs l where r: "running enc vs l s" by (rule reachable_running)
  from start_stat_tracing_running [OF r] show "returns (start_stat_tracing s)" by auto
  from stop_stat_tracing_running [OF r] show "returns (stop_stat_tracing s)" by auto
  from stop_stat_server_running [OF r] show "returns (stop_stat_server s)" by auto
  from running_logger [OF r] show "returns (stop_sampling_profiler s)"
    by (simp add: stop_sampling_profiler_def the_logger_def)
qed

theorem reachable_states_safe_witness:
  "\<exists>s. start_stat_server example_zmq (Some 5555) (Some 5556) server_init = Inr (True, s)
     \<and> returns (fire example_host Gc_started s) \<and> returns (stop_stat_server s)"
proof -
  from example_start obtain s where
    s: "start_stat_server example_zmq (Some 5555) (Some 5556) server_init = Inr (True, s)" by blast
  have r: "reachable ref_enc s"
    by (rule reach_start [OF reach_init _ s]) (simp add: server_init_def)
  from start_stat_server_result [OF stopped_init s, of ref_enc] obtain l where
    l: "running ref_enc [] l s" "lg_object_table l = (\<lambda>_. None)" "queued_bytes s = 0" by auto
  have "vm_room ref_enc example_host Gc_started s"
    using running_logger [OF l(1)] l(2,3)
    by (simp add: vm_room_def example_host_def pack_event_header_only_def pack_event_header_def pack_timestamp_def)
  with reachable_states_safe [OF r, of example_host Gc_started] running_logger [OF l(1)] s
  show ?thesis by auto
qed

text \<open>
  Claim C19. No interval timer outlives its profiler, and none can kill the process, as long as
  the class profiles in its sampling mode and so stops the profiler before the server: in
  every reachable state a timer that is armed belongs to a running server whose CPU profiler
  is on, it is the timer of the clock the profiler was started with, and its signal does
  not have the default action. At most one of the two timers is armed.
\<close>

theorem armed_timer_has_profiler:
  assumes "reachable enc s" and "armed (cpu_profiler s) w"
  shows "(\<exists>l. logger s = Some l \<and> lg_sampling_profiler_enabled l)
    \<and> dispositions (cpu_profiler s) (timer_signal w) \<noteq> SIG_DFL
    \<and> w = profiler.clock_type (cpu_profiler s)
    \<and> (\<forall>w'. w' \<noteq> w \<longrightarrow> \<not> armed (cpu_profiler s) w')"
proof -
  from reachable_sound [OF assms(1)] have p: "profiler_ok (sampling_on s) (cpu_profiler s)"
    by (simp add: sound_def)
  with assms(2) have "sampling_on s" "w = profiler.clock_type (cpu_profiler s)"
    by (auto simp: profiler_ok_def)
  moreover have "\<not> armed (cpu_profiler s) w'" if "w' \<noteq> w" for w'
    using p that \<open>w = _\<close> by (auto simp: profiler_ok_def)
  moreover have "dispositions (cpu_profiler s) (timer_signal w) \<noteq> SIG_DFL"
    using p assms(2) by (simp add: profiler_ok_def no_fatal_timer_def)
  ultimately show ?thesis by (simp add: sampling_on_def)
qed

theorem armed_timer_has_profiler_witness:
  "\<exists>s s'. start_stat_server example_zmq (Some 5555) (Some 5556) server_init = Inr (True, s)
     \<and> start_sampling_profiler (Some ''wall'') (Some 1000) s = Inr s'
     \<and> armed (cpu_profiler s') ITIMER_REAL \<and> \<not> armed (cpu_profiler s') ITIMER_PROF"
proof -
  from example_start obtain s where
    s: "start_stat_server example_zmq (Some 5555) (Some 5556) server_init = Inr (True, s)" by blast
  from start_stat_server_result [OF stopped_init s, of ref_enc] obtain l where
    l: "running ref_enc [] l s" "\<not> lg_sampling_profiler_enabled l" by auto
  have usec: "sint (1000 :: c_int) = 1000" by simp
  obtain s' where s': "start_sampling_profiler (Some ''wall'') (Some 1000) s = Inr s'"
    "armed (cpu_profiler s') ITIMER_REAL"
    using running_logger [OF l(1)] l(2)
    by (simp add: start_sampling_profiler_def the_logger_def FIX2INT_def set_sampling_def profiler_defs usec)
  have "reachable ref_enc s'"
    by (rule reach_profile_on [OF reach_start [OF reach_init _ s] s'(1)]) (simp add: server_init_def)
  from armed_timer_has_profiler [OF this, of ITIMER_REAL] s s' show ?thesis by auto
qed

section \<open>Batches\<close>

lemma batch_word: "n < 2 ^ 64 \<Longrightarrow> of_nat n = MESSAGE_BATCH_SIZE \<longleftrightarrow> n = 400"
  unfolding MESSAGE_BATCH_SIZE_def word_unat_eq_iff by (simp add: unat_of_nat)

lemma fire_all_jobs:
  "running enc vs l s \<Longrightarrow> lg_enabled l \<Longrightarrow> vm_all_ok enc es \<Longrightarrow>
   card (dom (logger_view l)) + length es < 2 ^ 62 \<Longrightarrow> queued_bytes s + vm_bytes enc es \<le> 2 ^ 63 \<Longrightarrow>
   \<not> test_mode_enabled s \<Longrightarrow> length vs + length es < 2 ^ 64 \<Longrightarrow>
   (length vs < 400 \<Longrightarrow> list_all (\<lambda>(h, ev). length (jobs s) < job_capacity h) es) \<Longrightarrow>
   \<exists>s'. fire_all es s = Inr s'
    \<and> jobs s' = (if length vs < 400 \<and> 400 \<le> length vs + length es then jobs s @ [Publish_job] else jobs s)"
proof (induction es arbitrary: s l vs)
  case (Cons e es)
  obtain h ev where e: "e = (h, ev)" by fastforce
  from Cons.prems e have pre: "host_enc h = enc" "vm_ok h ev" "vm_all_ok enc es"
    "card (dom (lg_object_table l)) < 2 ^ 62"
    "queued_bytes s + length (emit enc (vm_calls h ev)) \<le> 2 ^ 63"
    by (simp_all add: vm_all_ok_def vm_bytes_def card_dom_view)
  from fire_step [OF Cons.prems(1,2) pre(1,2,4,5)] obtain s1 l1 where
    s1: "fire h ev s = Inr s1" "running enc (vs @ [vm_frame h ev]) l1 s1" "lg_enabled l1"
      "logger_view l1 = vm_view ev (logger_view l)"
      "queued_bytes s1 = queued_bytes s + length (emit enc (vm_calls h ev))"
      "jobs s1 = jobs_after h (length vs) s"
    and fr: "s1 = s\<lparr>logger := logger s1, messages := messages s1, jobs := jobs s1\<rparr>"
    by blast
  have j1: "jobs s1 = (if length vs = 399 then jobs s @ [Publish_job] else jobs s)"
    using s1(6) Cons.prems(6,7,8) batch_word [of "length vs + 1"] e
    by (auto simp: jobs_after_def postponed_job_register_def)
  have "card (dom (logger_view l1)) + length es < 2 ^ 62"
    using card_dom_vm_view [of ev l] Cons.prems(4) s1(4) by simp
  moreover have "queued_bytes s1 + vm_bytes enc es \<le> 2 ^ 63"
    using Cons.prems(5) s1(5) e by (simp add: vm_bytes_def)
  moreover have "\<not> test_mode_enabled s1" by (subst fr) (use Cons.prems(6) in simp)
  moreover have "length (vs @ [vm_frame h ev]) + length es < 2 ^ 64" using Cons.prems(7) by simp
  moreover have "list_all (\<lambda>(h, ev). length (jobs s1) < job_capacity h) es"
    if "length (vs @ [vm_frame h ev]) < 400" using that Cons.prems(8) j1 by simp
  ultimately obtain s2 where "fire_all es s1 = Inr s2"
    "jobs s2 = (if length (vs @ [vm_frame h ev]) < 400 \<and> 400 \<le> length (vs @ [vm_frame h ev]) + length es
       then jobs s1 @ [Publish_job] else jobs s1)"
    using Cons.IH [OF s1(2,3) pre(3)] by blast
  with s1(1) e j1 show ?case by auto
qed simp

text \<open>
  Claim C20. However many events are queued in a row, the server asks for a publication
  exactly once, when the 400th message is queued: the job is registered if the queue held
  fewer than 400 messages and has reached 400, and no further one while it keeps growing,
  which is why the dispatch timer must pick up the rest.
\<close>

theorem batch_requested_once:
  assumes "running enc vs l s" and "lg_enabled l" and "vm_all_ok enc es"
    and "card (dom (logger_view l)) + length es < 2 ^ 62" and "queued_bytes s + vm_bytes enc es \<le> 2 ^ 63"
    and "\<not> test_mode_enabled s" and "length vs + length es < 2 ^ 64"
    and "list_all (\<lambda>(h, ev). length (jobs s) < job_capacity h) es"
  shows "\<exists>s'. fire_all es s = Inr s'
    \<and> jobs s' = (if length vs < 400 \<and> 400 \<le> length vs + length es then jobs s @ [Publish_job] else jobs s)"
  by (rule fire_all_jobs [OF assms])

lemma example_tracing:
  "\<exists>s1 s l. start_stat_server example_zmq (Some 5555) (Some 5556) server_init = Inr (True, s1)
    \<and> start_stat_tracing s1 = Inr s \<and> running ref_enc [] l s \<and> lg_enabled l
    \<and> logger_view l = (\<lambda>_. None) \<and> queued_bytes s = 0 \<and> jobs s = [] \<and> \<not> test_mode_enabled s
    \<and> zmq_publisher s = Some 2 \<and> server_instance s \<and> \<not> publish_callback s"
proof -
  from start_short [OF stopped_init example_binds, of 5555 5556] obtain s1 where
    s1: "start_stat_server example_zmq (Some 5555) (Some 5556) server_init = Inr (True, s1)"
      "zmq_publisher s1 = Some 2" "jobs s1 = []" "server_instance s1" "\<not> publish_callback s1"
      "\<not> test_mode_enabled s1"
    by (auto simp: example_zmq_def server_init_def)
  from start_stat_server_result [OF stopped_init s1(1), of ref_enc] obtain l where
    l: "running ref_enc [] l s1" "lg_object_table l = (\<lambda>_. None)" "queued_bytes s1 = 0" by auto
  from start_stat_tracing_running [OF l(1)] obtain s where
    s: "start_stat_tracing s1 = Inr s" "running ref_enc [] (l\<lparr>lg_enabled := True\<rparr>) s"
    and fr: "s = s1\<lparr>tracepoints := tracepoints s, logger := logger s\<rparr>" by blast
  have "queued_bytes s = 0" "jobs s = []" "\<not> test_mode_enabled s" "zmq_publisher s = Some 2"
    "server_instance s" "\<not> publish_callback s"
    by (subst fr; simp add: queued_bytes_def s1 l(3) [unfolded queued_bytes_def])+
  moreover have "logger_view (l\<lparr>lg_enabled := True\<rparr>) = (\<lambda>_. None)" by (simp add: logger_view_def l(2))
  ultimately show ?thesis using s1(1) s by fastforce
qed

theorem batch_requested_once_witness:
  "\<exists>s1 s s'. start_stat_server example_zmq (Some 5555) (Some 5556) server_init = Inr (True, s1)
    \<and> start_stat_tracing s1 = Inr s
    \<and> fire_all (replicate 500 (example_host, Gc_started)) s = Inr s' \<and> jobs s' = [Publish_job]"
proof -
  let ?es = "replicate 500 (example_host, Gc_started)"
  from example_tracing obtain s1 s l where
    s: "start_stat_server example_zmq (Some 5555) (Some 5556) server_init = Inr (True, s1)"
      "start_stat_tracing s1 = Inr s" "running ref_enc [] l s" "lg_enabled l"
      "logger_view l = (\<lambda>_. None)" "queued_bytes s = 0" "jobs s = []" "\<not> test_mode_enabled s" by blast
  have ok: "vm_all_ok ref_enc ?es" "list_all (\<lambda>(h, ev). length (jobs s) < job_capacity h) ?es"
    by (simp_all add: vm_all_ok_def example_host_def list_all_iff s(7))
  have "vm_bytes ref_enc ?es = 500 * 41"
    by (simp add: vm_bytes_def sum_list_replicate example_host_def pack_event_header_only_def
      pack_event_header_def pack_timestamp_def)
  with batch_requested_once [OF s(3,4) ok(1) _ _ s(8) _ ok(2)] s show ?thesis by auto
qed

section \<open>Ruby code that runs during a publication\<close>

lemma publishing_running: "running enc vs l (publishing buf counter s) = running enc vs l s"
  by (rule running_cong) simp_all

text \<open>
  Claim C18. What happens while the publish callback runs is tracked but never reported.
  If the Ruby code of a publication (the string made of the message, the callback itself)
  causes events, their frames go into the queue and are wiped by the clear that follows:
  the published message holds only the frames queued before, the queue is empty
  afterwards, and yet the objects' table has moved on.
\<close>

theorem events_during_publication_lost:
  assumes codec: "msgpack_codec enc dec" and r: "running enc vs l s" and on: "lg_enabled l"
    and e: "host_enc h = enc" and ne: "vs \<noteq> []" and few: "length vs < 2 ^ 32"
    and cb: "server_instance s" "publish_callback s" and es: "vm_all_ok enc es"
    and objs: "card (dom (logger_view l)) + length es < 2 ^ 62"
    and room: "queued_bytes s + vm_bytes enc es \<le> 2 ^ 63"
  shows "\<exists>bytes s' l'. trigger_publish_callback h (\<lambda>s. and_then (fire_all es s) (\<lambda>s. Inr (False, s))) s = Inr s'
    \<and> published s' = published s @ [bytes]
    \<and> unpack dec bytes = Some (collection_value (host_clock h) (message_counter s) vs)
    \<and> running enc [] l' s' \<and> logger_view l' = fold vm_view (map snd es) (logger_view l)"
proof -
  let ?during = "\<lambda>s. and_then (fire_all es s) (\<lambda>s. Inr (False, s))"
  have m: "holds (host_enc h) vs (messages s)" using r e by (simp add: running_def)
  from trigger_publish_holds [OF _ m ne few, of dec ?during] codec e cb obtain bytes where
    u: "unpack dec bytes = Some (collection_value (host_clock h) (message_counter s) vs)"
    and t: "trigger_publish_callback h ?during s =
        and_then (?during (publishing bytes (message_counter s + 1) s))
          (\<lambda>(raised, s). Inr (if raised then s else s\<lparr>messages := message_list_clear (messages s)\<rparr>))"
    by auto
  let ?p = "publishing bytes (message_counter s + 1) s"
  have rp: "running enc vs l ?p" and qp: "queued_bytes ?p = queued_bytes s"
    using r by (simp_all add: publishing_running queued_bytes_def)
  from fire_all_running [OF rp on es objs] room qp obtain s1 l1 where
    s1: "fire_all es ?p = Inr s1" "running enc (vs @ frames_of es) l1 s1"
      "logger_view l1 = fold vm_view (map snd es) (logger_view l)"
    and fr: "s1 = ?p\<lparr>logger := logger s1, messages := messages s1, jobs := jobs s1\<rparr>" by auto
  have "published s1 = published s @ [bytes]" by (subst fr) (use cb in simp)
  moreover have "trigger_publish_callback h ?during s = Inr (s1\<lparr>messages := message_list_clear (messages s1)\<rparr>)"
    using t s1(1) by simp
  ultimately show ?thesis using u running_clear [OF s1(2)] s1(3) by fastforce
qed

lemma running_callback: "running enc vs l (s\<lparr>publish_callback := b\<rparr>) = running enc vs l s"
  by (rule running_cong) simp_all

text \<open>A tracing server with a callback and one queued frame.\<close>

lemma example_one_queued:
  "\<exists>s l. reachable ref_enc s \<and> running ref_enc [VMap [(VInt 0, VInt 2), (VInt 1, VDouble 1500)]] l s
    \<and> lg_enabled l \<and> logger_view l = (\<lambda>_. None) \<and> queued_bytes s = 41 \<and> server_instance s
    \<and> publish_callback s \<and> zmq_publisher s = Some 2"
proof -
  from example_tracing obtain s1 s l where
    s: "start_stat_server example_zmq (Some 5555) (Some 5556) server_init = Inr (True, s1)"
      "start_stat_tracing s1 = Inr s" "running ref_enc [] l s" "lg_enabled l" "logger_view l = (\<lambda>_. None)"
      "queued_bytes s = 0" "server_instance s" "zmq_publisher s = Some 2" by blast
  let ?s = "s\<lparr>publish_callback := True, respond_callback := False\<rparr>"
  have "reachable ref_enc s"
    by (rule reach_trace_on [OF reach_start [OF reach_init _ s(1)] s(2)]) (simp add: server_init_def)
  then have re: "reachable ref_enc ?s" by (rule reach_callback)
  have r: "running ref_enc [] l ?s" using s(3) running_cong [of ?s s ref_enc "[]" l] by simp
  have q: "queued_bytes ?s = 0" using s(6) by (simp add: queued_bytes_def)
  have b: "length (emit ref_enc (vm_calls example_host Gc_started)) = 41"
    by (simp add: pack_event_header_only_def pack_event_header_def pack_timestamp_def)
  have few: "card (dom (lg_object_table l)) < 2 ^ 62" using s(5) by (simp add: card_dom_view)
  have e: "host_enc example_host = ref_enc" by (simp add: example_host_def)
  have "vm_room ref_enc example_host Gc_started ?s"
    using few b q e running_logger [OF r] by (simp add: vm_room_def del: vm_calls.simps)
  moreover from fire_step [OF r s(4) e _ few, of Gc_started] q b obtain s2 l2 where
    s2: "fire example_host Gc_started ?s = Inr s2" "running ref_enc ([] @ [vm_frame example_host Gc_started]) l2 s2"
      "lg_enabled l2" "logger_view l2 = vm_view Gc_started (logger_view l)" "queued_bytes s2 = 41"
    and fr: "s2 = ?s\<lparr>logger := logger s2, messages := messages s2, jobs := jobs s2\<rparr>"
    by (auto simp del: vm_calls.simps)
  ultimately have "reachable ref_enc s2" using reach_vm [OF re] by blast
  moreover have "vm_frame example_host Gc_started = VMap [(VInt 0, VInt 2), (VInt 1, VDouble 1500)]"
    by (simp add: frame_simps example_host_def example_clock_def get_wall_time_in_msec_def wall_msec_def)
  moreover have "server_instance s2" "publish_callback s2" "zmq_publisher s2 = Some 2"
    by (subst fr; simp add: s(7,8))+
  ultimately show ?thesis using s2(2-5) s(5) by (intro exI [of _ s2] exI [of _ l2]) simp
qed

theorem events_during_publication_lost_witness:
  "\<exists>s s' bytes. trigger_publish_callback example_host
       (\<lambda>s. and_then (fire_all [(example_host, Free_object 40)] s) (\<lambda>s. Inr (False, s))) s = Inr s'
    \<and> published s' = published s @ [bytes] \<and> queued_message_count (messages s') = 0
    \<and> unpack ref_dec bytes = Some (collection_value example_clock (message_counter s)
        [VMap [(VInt 0, VInt 2), (VInt 1, VDouble 1500)]])"
proof -
  let ?es = "[(example_host, Free_object 40)]"
  from example_one_queued obtain s l where
    s: "running ref_enc [VMap [(VInt 0, VInt 2), (VInt 1, VDouble 1500)]] l s" "lg_enabled l"
      "logger_view l = (\<lambda>_. None)" "queued_bytes s = 41" "server_instance s" "publish_callback s" by blast
  have ok: "vm_all_ok ref_enc ?es" "host_enc example_host = ref_enc"
    by (simp_all add: vm_all_ok_def example_host_def)
  have "vm_bytes ref_enc ?es \<le> 100"
    by (simp add: vm_bytes_def pack_obj_destroyed_event_def pack_event_header_def pack_timestamp_def)
  then obtain bytes s' l' where
    "trigger_publish_callback example_host (\<lambda>s. and_then (fire_all ?es s) (\<lambda>s. Inr (False, s))) s = Inr s'"
    "published s' = published s @ [bytes]" "running ref_enc [] l' s'"
    "unpack ref_dec bytes = Some (collection_value (host_clock example_host) (message_counter s)
        [VMap [(VInt 0, VInt 2), (VInt 1, VDouble 1500)]])"
    using events_during_publication_lost [OF ref_codec s(1,2) ok(2) _ _ s(5,6) ok(1)] s(3,4) by auto
  moreover from this(3) have "queued_message_count (messages s') = 0"
    using holds_count [of ref_enc "[]" "messages s'"] by (simp add: running_def)
  moreover have "host_clock example_host = example_clock" by (simp add: example_host_def)
  ultimately show ?thesis by auto
qed

text \<open>
  Claim C29. A publish callback that raises leaves the queue as it was: the next
  publication repeats every frame of the failed one, under the next message counter, so
  nothing is lost but the message has gone out twice.
\<close>

theorem raising_callback_repeats:
  assumes codec: "msgpack_codec enc dec" and r: "running enc vs l s" and e: "host_enc h = enc"
    and ne: "vs \<noteq> []" and few: "length vs < 2 ^ 32" and cb: "server_instance s" "publish_callback s"
  shows "\<exists>first second s1 s2. trigger_publish_callback h (only_raises True) s = Inr s1
    \<and> trigger_publish_callback h quiet s1 = Inr s2 \<and> published s2 = published s @ [first, second]
    \<and> unpack dec first = Some (collection_value (host_clock h) (message_counter s) vs)
    \<and> unpack dec second = Some (collection_value (host_clock h) (message_counter s + 1) vs)
    \<and> running enc [] l s2"
proof -
  have m: "holds (host_enc h) vs (messages s)" using r e by (simp add: running_def)
  from trigger_publish_holds [OF _ m ne few, of dec "only_raises True"] codec e cb obtain b1 where
    b1: "unpack dec b1 = Some (collection_value (host_clock h) (message_counter s) vs)"
      "trigger_publish_callback h (only_raises True) s = Inr (publishing b1 (message_counter s + 1) s)"
    by (auto simp: only_raises_def)
  let ?s1 = "publishing b1 (message_counter s + 1) s"
  have cb1: "server_instance ?s1" "publish_callback ?s1"
    using cb by (cases "zmq_publisher s"; simp add: publishing_def log_zmq_def Let_def)+
  have m1: "holds (host_enc h) vs (messages ?s1)" using m by simp
  from trigger_publish_holds [OF _ m1 ne few, of dec quiet] codec e cb1 obtain b2 where
    b2: "unpack dec b2 = Some (collection_value (host_clock h) (message_counter ?s1) vs)"
    and t2: "trigger_publish_callback h quiet ?s1 = Inr ((publishing b2 (message_counter ?s1 + 1) ?s1)
      \<lparr>messages := message_list_clear (messages ?s1)\<rparr>)"
    by (auto simp: quiet_def)
  let ?s2 = "publishing b2 (message_counter ?s1 + 1) ?s1"
  have "running enc vs l ?s2" using r by (simp add: publishing_running)
  from running_clear [OF this] have "running enc [] l (?s2\<lparr>messages := message_list_clear (messages ?s1)\<rparr>)"
    by simp
  moreover have "published ?s2 = published s @ [b1, b2]" using cb cb1 by simp
  ultimately show ?thesis using b1 b2 t2 by fastforce
qed

theorem raising_callback_repeats_witness:
  "\<exists>s s1 s2 first second. trigger_publish_callback example_host (only_raises True) s = Inr s1
    \<and> trigger_publish_callback example_host quiet s1 = Inr s2
    \<and> published s2 = published s @ [first, second] \<and> unpack ref_dec first \<noteq> None
    \<and> unpack ref_dec second \<noteq> None"
proof -
  from example_one_queued obtain s l where
    s: "running ref_enc [VMap [(VInt 0, VInt 2), (VInt 1, VDouble 1500)]] l s" "server_instance s"
      "publish_callback s" by blast
  have "host_enc example_host = ref_enc" by (simp add: example_host_def)
  from raising_callback_repeats [OF ref_codec s(1) this _ _ s(2,3)] obtain first second s1 s2 where
    "trigger_publish_callback example_host (only_raises True) s = Inr s1"
    "trigger_publish_callback example_host quiet s1 = Inr s2"
    "published s2 = published s @ [first, second]" "unpack ref_dec first \<noteq> None"
    "unpack ref_dec second \<noteq> None" by auto
  then show ?thesis by blast
qed

section \<open>The status and the handshake\<close>

lemma running_hooks_on:
  assumes "running enc vs l s"
  shows "(\<exists>tp\<in>set (tracepoints s). hook_enabled tp) \<longleftrightarrow> lg_enabled l"
proof -
  from assms obtain old where "silent old"
    "tracepoints s = old @ five_hooks (logger_number s) (lg_enabled l)"
    by (auto simp: running_def hooks_ok_def)
  then show ?thesis by (auto simp: silent_def list_all_iff five_hooks_def hook_kinds_def)
qed

text \<open>
  Claim C22. The status tells the truth, as long as the class profiles in its sampling mode
  and so stops the profiler before the server. In every reachable state, running or not, it says
  that object tracing is enabled exactly when a tracepoint of the server is enabled in
  the VM, and it says that CPU profiling is enabled whenever an interval timer is armed.
\<close>

theorem status_truthful:
  assumes "reachable enc s"
  shows "map_of (rbkit_status_as_hash p s) (T_OBJECT ''object_trace_enabled'')
      = Some (T_FIXNUM (if \<exists>tp\<in>set (tracepoints s). hook_enabled tp then 1 else 0))
    \<and> ((\<exists>w. armed (cpu_profiler s) w) \<longrightarrow>
        map_of (rbkit_status_as_hash p s) (T_OBJECT ''cpu_profiling_enabled'') = Some (T_FIXNUM 1))"
  using reachable_sound [OF assms]
proof (cases rule: sound_cases)
  case 1
  then have "\<not> (\<exists>tp\<in>set (tracepoints s). hook_enabled tp)" "logger s = None"
    by (auto simp: stopped_def silent_def list_all_iff)
  with 1(2) show ?thesis by (auto simp: rbkit_status_as_hash_def profiler_ok_def)
next
  case (2 vs l)
  with running_hooks_on [OF 2(1)] running_logger [OF 2(1)] show ?thesis
    by (auto simp: rbkit_status_as_hash_def profiler_ok_def)
qed

definition example_process :: ruby_process where
  "example_process = \<lparr>rbkit_version = ''0.1.2'', process_argv0 = ''app.rb'', process_pid = 77,
     working_directory = ''/srv'', ivar_clock_type = ''cpu'', ivar_cpu_profiling_mode = ''sampling''\<rparr>"

theorem status_truthful_witness:
  "\<exists>s. reachable ref_enc s \<and> (\<exists>tp\<in>set (tracepoints s). hook_enabled tp)
    \<and> map_of (rbkit_status_as_hash example_process s) (T_OBJECT ''object_trace_enabled'') = Some (T_FIXNUM 1)"
proof -
  from example_one_queued obtain s vs l where
    s: "reachable ref_enc s" "running ref_enc vs l s" "lg_enabled l" by blast
  from running_hooks_on [OF s(2)] s(3) have "\<exists>tp\<in>set (tracepoints s). hook_enabled tp" by simp
  with status_truthful [OF s(1), of example_process] s(1) show ?thesis by auto
qed

definition process_ok :: "ruby_process \<Rightarrow> bool" where
  "process_ok p \<longleftrightarrow>
     list_all (\<lambda>t. length t < 2 ^ 31 \<and> CHR 0x00 \<notin> set t)
       [rbkit_version p, process_argv0 p, working_directory p, ivar_clock_type p, ivar_cpu_profiling_mode p]"

lemma status_hash_ok: "process_ok p \<Longrightarrow> hash_ok (rbkit_status_as_hash p s)"
  by (simp add: process_ok_def hash_ok_def rbkit_status_as_hash_def rbkit_protocol_version_def Let_def)

text \<open>The bytes of a handshake, whatever the callback does.\<close>

lemma handshake_bytes:
  assumes "msgpack_codec (host_enc h) dec" and "hash_ok (rbkit_status_as_hash p s)"
  shows "\<exists>bytes. bytes \<noteq> []
    \<and> unpack dec bytes = Some (frame_value (host_clock h) (event_code handshake)
        [(rbkit_message_field_payload, hash_value (rbkit_status_as_hash p s))])
    \<and> send_handshake_response h p during s = respond_with_message during bytes s"
proof -
  let ?hash = "rbkit_status_as_hash p s" and ?t = "event_code handshake"
  from packs_hash [of ?hash "host_clock h" ?t "strings_of s"] assms(2) obtain cs where
    cs: "pack_hash_event (host_clock h) ?t ?hash = Inr cs"
      "packs cs [event_value (host_clock h) (strings_of s) (Hash_event ?t ?hash)]"
    by (auto simp: hash_ok_def)
  have u: "unpack dec (emit (host_enc h) cs) = Some (frame_value (host_clock h) ?t
        [(rbkit_message_field_payload, hash_value ?hash)])"
    using unpack_packs [OF assms(1) cs(2)] by simp
  then have "emit (host_enc h) cs \<noteq> []" by (auto simp: unpack_def)
  moreover have "pack_fresh h (new_rbkit_hash_event ?t ?hash) s
      = Inr (emit (host_enc h) cs, new_rbkit_hash_event ?t ?hash, s)"
    using cs(1) by (simp add: pack_fresh_def pack_event_def new_rbkit_hash_event_def Let_def)
  ultimately show ?thesis using u by (auto simp: send_handshake_response_def)
qed

text \<open>
  The Ruby objects that the status hash is made of are allocations like any other: while
  tracing is on, the VM runs \<open>newobj_i\<close> for each. No event changes what the status says or
  touches the sockets, so these events can stand before the call.
\<close>

lemma pack_and_send_frame:
  assumes "pack_and_send h ev arg s = Inr s'"
  shows "\<exists>sbuf m js c. s' = s\<lparr>logger := Some (arg\<lparr>lg_sbuf := sbuf\<rparr>), messages := m, jobs := js, message_counter := c\<rparr>"
proof -
  from assms obtain bytes ev' c m where
    "queue_message bytes (messages s) = Inr m"
    "s' = (let t = s\<lparr>logger := Some (arg\<lparr>lg_sbuf := bytes\<rparr>), message_counter := c, messages := m\<rparr>
           in if queued_message_count m = MESSAGE_BATCH_SIZE then send_messages h t else t)"
    by (auto simp: pack_and_send_def send_message_def and_then_eq_Inr Let_def)
  then have "s' = s\<lparr>logger := Some (arg\<lparr>lg_sbuf := bytes\<rparr>), messages := m, jobs := jobs s', message_counter := c\<rparr>"
    by (simp add: send_messages_def Let_def)
  then show ?thesis by blast
qed

lemma run_hook_frame:
  assumes "run_hook h ev arg s = Inr s'"
  shows "\<exists>l m js c. s' = s\<lparr>logger := Some l, messages := m, jobs := js, message_counter := c\<rparr>
    \<and> lg_enabled l = lg_enabled arg \<and> lg_sampling_profiler_enabled l = lg_sampling_profiler_enabled arg"
proof -
  have "\<exists>e tbl objects. pack_and_send h e (arg\<lparr>lg_str_table := tbl, lg_object_table := objects\<rparr>) s = Inr s'"
  proof (cases ev)
    case New_object
    with assms show ?thesis by (auto simp: newobj_i_def and_then_eq_Inr Let_def)
  next
    case Free_object
    with assms show ?thesis by (auto simp: freeobj_i_def and_then_eq_Inr Let_def)
  qed (use assms in \<open>force simp: gc_start_i_def gc_end_mark_i_def gc_end_sweep_i_def
    intro: exI [of _ "lg_str_table arg"] exI [of _ "lg_object_table arg"]\<close>)+
  then obtain e tbl objects where
    p: "pack_and_send h e (arg\<lparr>lg_str_table := tbl, lg_object_table := objects\<rparr>) s = Inr s'" by blast
  with pack_and_send_frame [OF p] show ?thesis by fastforce
qed

definition outside_view where
  "outside_view s = (zmq_log s, zmq_response_socket s, responded s, server_instance s, respond_callback s)"

lemma fire_status:
  assumes "fire h ev s = Inr s'"
  shows "rbkit_status_as_hash p s' = rbkit_status_as_hash p s \<and> outside_view s' = outside_view s"
proof -
  have "fire_hooks h ev tps s = Inr s' \<Longrightarrow>
      rbkit_status_as_hash p s' = rbkit_status_as_hash p s \<and> outside_view s' = outside_view s" for tps s
  proof (induction tps arbitrary: s)
    case (Cons tp tps)
    show ?case
    proof (cases "hook_enabled tp \<and> hook_kind tp = vm_kind ev")
      case True
      with Cons.prems obtain arg s1 where a: "hook_logger tp s = Inr arg" "run_hook h ev arg s = Inr s1"
        "fire_hooks h ev tps s1 = Inr s'" by (auto simp: and_then_eq_Inr)
      from a(1) have "logger s = Some arg" by (auto simp: hook_logger_def split: option.splits if_splits)
      with run_hook_frame [OF a(2)] have
        "rbkit_status_as_hash p s1 = rbkit_status_as_hash p s \<and> outside_view s1 = outside_view s"
        by (auto simp: rbkit_status_as_hash_def outside_view_def)
      with Cons.IH [OF a(3)] show ?thesis by simp
    next
      case False
      with Cons show ?thesis by auto
    qed
  qed simp
  with assms show ?thesis by (simp add: fire_def)
qed

lemma fire_all_status:
  "fire_all es s = Inr s' \<Longrightarrow>
     rbkit_status_as_hash p s' = rbkit_status_as_hash p s \<and> outside_view s' = outside_view s"
proof (induction es arbitrary: s)
  case (Cons e es)
  then show ?case using fire_status by (cases e) (fastforce simp: and_then_eq_Inr)
qed simp

text \<open>
  Claim C21. The answer to a handshake decodes to one frame of type handshake whose payload
  is the status hash of that moment, whatever events (allocations of the call's own Ruby
  objects among them) the VM fires before the hash is packed. It goes out on the response
  socket when there is one and to the respond callback when there is one; the queue
  holds what those events left, and beyond them neither the queue nor the message counter
  changes, whether or not the server runs.
\<close>

theorem handshake_reports_status:
  assumes "msgpack_codec (host_enc h) dec" and "process_ok p" and "fire_all allocations s = Inr s1"
  shows "\<exists>bytes s'. send_handshake_response h p quiet s1 = Inr (False, s')
    \<and> unpack dec bytes = Some (frame_value (host_clock h) (event_code handshake)
        [(rbkit_message_field_payload, hash_value (rbkit_status_as_hash p s))])
    \<and> zmq_log s' = zmq_log s @ (case zmq_response_socket s of None \<Rightarrow> [] | Some k \<Rightarrow> [Zmq_send k bytes])
    \<and> responded s' = responded s @ (if server_instance s \<and> respond_callback s then [bytes] else [])
    \<and> messages s' = messages s1 \<and> message_counter s' = message_counter s1"
proof -
  from handshake_bytes [OF assms(1) status_hash_ok [OF assms(2), of s1]] obtain bytes where
    "unpack dec bytes = Some (frame_value (host_clock h) (event_code handshake)
        [(rbkit_message_field_payload, hash_value (rbkit_status_as_hash p s1))])"
    "send_handshake_response h p quiet s1 = respond_with_message quiet bytes s1" by blast
  with fire_all_status [OF assms(3), of p] show ?thesis unfolding outside_view_def
    by (cases "zmq_response_socket s"; cases "server_instance s \<and> respond_callback s")
      (auto simp: respond_with_message_def quiet_def log_zmq_def Let_def intro!: exI [of _ bytes])
qed

theorem handshake_reports_status_witness:
  "\<exists>bytes s'. send_handshake_response example_host example_process quiet
        (server_init\<lparr>zmq_response_socket := Some 3\<rparr>) = Inr (False, s')
    \<and> zmq_log s' = [Zmq_send 3 bytes]
    \<and> unpack ref_dec bytes = Some (frame_value example_clock 8 [(rbkit_message_field_payload, VMap
        [(VStr ''rbkit_server_version'', VStr ''0.1.2''), (VStr ''rbkit_protocol_version'', VStr ''2.1''),
         (VStr ''process_name'', VStr ''app.rb''), (VStr ''pwd'', VStr ''/srv''), (VStr ''pid'', VInt 77),
         (VStr ''object_trace_enabled'', VInt 0), (VStr ''cpu_profiling_enabled'', VInt 0),
         (VStr ''clock_type'', VStr ''cpu''), (VStr ''cpu_profiling_mode'', VStr ''sampling'')])])"
proof -
  have ok: "msgpack_codec (host_enc example_host) ref_dec" "process_ok example_process"
    by (simp_all add: example_host_def ref_codec process_ok_def example_process_def)
  have v: "hash_value (rbkit_status_as_hash example_process (server_init\<lparr>zmq_response_socket := Some 3\<rparr>))
    = VMap
        [(VStr ''rbkit_server_version'', VStr ''0.1.2''), (VStr ''rbkit_protocol_version'', VStr ''2.1''),
         (VStr ''process_name'', VStr ''app.rb''), (VStr ''pwd'', VStr ''/srv''), (VStr ''pid'', VInt 77),
         (VStr ''object_trace_enabled'', VInt 0), (VStr ''cpu_profiling_enabled'', VInt 0),
         (VStr ''clock_type'', VStr ''cpu''), (VStr ''cpu_profiling_mode'', VStr ''sampling'')]"
    by (simp add: hash_value_def rbkit_status_as_hash_def example_process_def server_init_def
      rbkit_protocol_version_def Let_def)
  have "fire_all [] (server_init\<lparr>zmq_response_socket := Some 3\<rparr>) = Inr (server_init\<lparr>zmq_response_socket := Some 3\<rparr>)"
    by simp
  from handshake_reports_status [OF ok this] show ?thesis unfolding v by (auto simp: example_host_def server_init_def)
qed

section \<open>Test mode\<close>

text \<open>
  Claim C40. In test mode the messages stay until they are asked for. The timer's request
  for a publication does nothing; \<open>get_queued_messages\<close> returns one message that decodes to
  exactly the frames queued before the call, in order, under the next message counter, and
  sends nothing. Whatever the allocation of the returned string queues (its own allocation
  event, while tracing is on) is in no message and is wiped, and a second call returns nil
  and changes nothing.
\<close>

theorem test_mode_collects:
  assumes codec: "msgpack_codec enc dec" and r: "running enc vs l s" and e: "host_enc h = enc"
    and ne: "vs \<noteq> []" "length vs < 2 ^ 32" and "test_mode_enabled s"
    and during: "during (s\<lparr>message_counter := message_counter s + 1\<rparr>) = Inr (raised, s1)"
    and r1: "running enc (vs @ ws) l1 s1"
  shows "send_messages h s = s
    \<and> (\<exists>bytes s'. get_queued_messages h during s = Inr (Some bytes, s')
        \<and> unpack dec bytes = Some (collection_value (host_clock h) (message_counter s) vs)
        \<and> running enc [] l1 s' \<and> zmq_log s' = zmq_log s1 \<and> published s' = published s1
        \<and> get_queued_messages h during' s' = Inr (None, s'))"
proof -
  from r have "holds enc vs (messages s)" by (simp add: running_def)
  from collection_holds [OF codec this ne, of "host_clock h" "strings_of s" "message_counter s" "[]"] obtain bytes where
    b: "get_event_collection_message enc (host_clock h) (strings_of s) (message_counter s) [] (messages s)
        = Inr (bytes, message_counter s + 1)" "bytes \<noteq> []"
      "unpack dec bytes = Some (collection_value (host_clock h) (message_counter s) vs)" by blast
  let ?s' = "s1\<lparr>messages := message_list_clear (messages s1)\<rparr>"
  have r': "running enc [] l1 ?s'" using running_clear [OF r1] .
  then have "no_of_messages (messages ?s') = 0" by (auto simp: running_def holds_def queued_def)
  then have "get_queued_messages h during' ?s' = Inr (None, ?s')"
    by (simp add: get_queued_messages_def get_event_collection_message_def)
  moreover have "get_queued_messages h during s = Inr (Some bytes, ?s')"
    using b(1,2) during e by (simp add: get_queued_messages_def)
  ultimately show ?thesis using b(3) r' assms(6) by (simp add: send_messages_def)
qed

theorem test_mode_collects_witness:
  "\<exists>s bytes s'. test_mode_enabled s \<and> send_messages example_host s = s
    \<and> get_queued_messages example_host quiet s = Inr (Some bytes, s')
    \<and> unpack ref_dec bytes = Some (collection_value example_clock (message_counter s)
        [VMap [(VInt 0, VInt 2), (VInt 1, VDouble 1500)]])
    \<and> get_queued_messages example_host quiet s' = Inr (None, s')"
proof -
  let ?vs = "[VMap [(VInt 0, VInt 2), (VInt 1, VDouble 1500)]]"
  from example_one_queued obtain s0 l where s0: "running ref_enc ?vs l s0" by blast
  let ?s = "enable_test_mode s0"
  have r: "running ref_enc ?vs l ?s" "test_mode_enabled ?s"
    using s0 running_cong [of ?s s0] by (simp_all add: enable_test_mode_def)
  have "host_enc example_host = ref_enc" "?vs \<noteq> []" "length ?vs < 2 ^ 32" by (simp_all add: example_host_def)
  moreover have "running ref_enc (?vs @ []) l (?s\<lparr>message_counter := message_counter ?s + 1\<rparr>)"
    using r(1) running_cong [of "?s\<lparr>message_counter := message_counter ?s + 1\<rparr>" ?s] by simp
  moreover have "quiet (?s\<lparr>message_counter := message_counter ?s + 1\<rparr>)
      = Inr (False, ?s\<lparr>message_counter := message_counter ?s + 1\<rparr>)" by (simp add: quiet_def)
  ultimately have "send_messages example_host ?s = ?s
    \<and> (\<exists>bytes s'. get_queued_messages example_host quiet ?s = Inr (Some bytes, s')
        \<and> unpack ref_dec bytes = Some (collection_value (host_clock example_host) (message_counter ?s) ?vs)
        \<and> get_queued_messages example_host quiet s' = Inr (None, s'))"
    using test_mode_collects [OF ref_codec r(1) _ _ _ r(2)] by blast
  moreover have "host_clock example_host = example_clock" by (simp add: example_host_def)
  ultimately show ?thesis using r(2) by metis
qed

section \<open>What the code does not handle\<close>

text \<open>The ports \<open>lib/rbkit/server.rb\<close> lets through.\<close>

definition valid_port :: "int \<Rightarrow> bool" where
  "valid_port p \<longleftrightarrow> p = 0 \<or> (1024 \<le> p \<and> p \<le> 65000)"

lemma valid_port_FIX2INT:
  "valid_port p \<Longrightarrow> FIX2INT (Some p) = Inr (of_int p) \<and> sint (of_int p :: c_int) = p"
  by (auto simp: valid_port_def FIX2INT_def signed_of_int signed_take_bit_int_eq_self)

lemma open_publisher_long:
  "p \<noteq> 0 \<Longrightarrow> 10000 \<le> sint p \<Longrightarrow> open_publisher z p s = Inl Out_of_bounds"
  using endpoint_fits [of p] by (simp add: open_publisher_def sprintf_into_def)

lemma open_responder_long:
  "p \<noteq> 0 \<Longrightarrow> 10000 \<le> sint p \<Longrightarrow> open_responder z p s = Inl Out_of_bounds"
  using endpoint_fits [of p] by (simp add: open_responder_def sprintf_into_def)

text \<open>When the endpoints overflow their buffers: the second one only if the start gets to it.\<close>

definition long_ports :: "zmq_results \<Rightarrow> int \<Rightarrow> int \<Rightarrow> bool" where
  "long_ports z p q \<longleftrightarrow>
     10000 \<le> p \<or> (10000 \<le> q \<and> (p = 0 \<or> bind_succeeds z ZMQ_PUB (endpoint (of_int p))))"

lemma start_overflow:
  assumes st: "stopped s" and valid: "valid_port p" "valid_port q"
  shows "(if long_ports z p q then start_stat_server z (Some p) (Some q) s = Inl Out_of_bounds
     else \<exists>ok s'. start_stat_server z (Some p) (Some q) s = Inr (ok, s') \<and> (ok \<longrightarrow> p < 10000 \<and> q < 10000))"
proof -
  note long_ports_def [simp]
  let ?p = "of_int p :: c_int" and ?q = "of_int q :: c_int"
  from valid_port_FIX2INT [OF valid(1)] have p: "FIX2INT (Some p) = Inr ?p" "sint ?p = p" by auto
  from valid_port_FIX2INT [OF valid(2)] have q: "FIX2INT (Some q) = Inr ?q" "sint ?q = q" by auto
  have z0: "?p = 0 \<longleftrightarrow> p = 0" "?q = 0 \<longleftrightarrow> q = 0" using p(2) q(2) by (metis signed_eq_0_iff)+
  have s0: "logger (log_zmq c (s\<lparr>server_instance := True, zmq_context := x\<rparr>)) = logger s"
    "tracepoints (log_zmq c (s\<lparr>server_instance := True, zmq_context := x\<rparr>)) = tracepoints s"
    "messages (log_zmq c (s\<lparr>server_instance := True, zmq_context := x\<rparr>)) = messages s" for c x
    by (simp_all add: log_zmq_def)
  show ?thesis
  proof (cases "10000 \<le> p")
    case True
    with open_publisher_long [of ?p] p(2) z0 have "open_publisher z ?p t = Inl Out_of_bounds" for t by auto
    with p(1) q(1) True show ?thesis by (simp add: start_stat_server_def Let_def)
  next
    case False
    with valid(1) p(2) have sp: "short_port ?p" by (auto simp: short_port_def valid_port_def)
    let ?c = "log_zmq (Zmq_ctx_new (new_context z))
      (s\<lparr>server_instance := True, zmq_context := Some (new_context z)\<rparr>)"
    obtain s1 where o1: "open_publisher z ?p ?c = Inr (p = 0 \<or> bind_succeeds z ZMQ_PUB (endpoint ?p), s1)"
      using open_publisher_short [OF sp] z0 by auto
    have st1: "stopped s1" using open_publisher_frame [OF o1] st by (simp add: stopped_def s0)
    show ?thesis
    proof (cases "p = 0 \<or> bind_succeeds z ZMQ_PUB (endpoint ?p)")
      case False
      with p(1) q(1) o1 VALUE_of_nonzero \<open>\<not> 10000 \<le> p\<close> show ?thesis
        by (auto simp: start_stat_server_def Let_def)
    next
      case bound: True
      show ?thesis
      proof (cases "10000 \<le> q")
        case True
        with open_responder_long [of ?q] q(2) z0 have "open_responder z ?q s1 = Inl Out_of_bounds" by auto
        with p(1) q(1) o1 bound VALUE_of_nonzero True show ?thesis
          by (simp add: start_stat_server_def Let_def)
      next
        case False
        with valid(2) q(2) have sq: "short_port ?q" by (auto simp: short_port_def valid_port_def)
        from open_responder_short [OF sq, of z s1] obtain ok s2 where
          o2: "open_responder z ?q s1 = Inr (ok, s2)" by blast
        have "stopped s2" using open_responder_frame [OF o2] st1 by (simp add: stopped_def)
        then obtain s3 where "start_tracker s2 = Inr s3" using start_tracker_running by blast
        with p(1) q(1) o1 o2 bound VALUE_of_nonzero False \<open>\<not> 10000 \<le> p\<close> show ?thesis
          by (cases ok) (auto simp: start_stat_server_def Let_def)
      qed
    qed
  qed
qed

text \<open>
  Claim C15. The endpoint buffers hold 21 bytes, enough for a port of four digits and no
  more. Of the ports the Ruby class accepts, a publisher port of 10000 or more overflows
  the stack buffer at once, and so does such a request port when the start gets that far;
  with two shorter ports a start of a stopped server never fails but by a bind.
\<close>

theorem endpoint_buffer_overflow:
  assumes "reachable enc s" and "logger s = None" and "valid_port p" and "valid_port q"
  shows "(start_stat_server z (Some p) (Some q) s = Inl Out_of_bounds \<longleftrightarrow>
      10000 \<le> p \<or> (10000 \<le> q \<and> (p = 0 \<or> bind_succeeds z ZMQ_PUB (endpoint (of_int p)))))
    \<and> (p < 10000 \<and> q < 10000 \<longrightarrow> returns (start_stat_server z (Some p) (Some q) s))"
  using start_overflow [OF reachable_stopped [OF assms(1,2)] assms(3,4), of z]
  by (auto simp: long_ports_def split: if_splits)

theorem endpoint_buffer_overflow_witness:
  "start_stat_server example_zmq (Some 55555) (Some 5556) server_init = Inl Out_of_bounds
    \<and> start_stat_server example_zmq (Some 5555) (Some 5556) server_init \<noteq> Inl Out_of_bounds"
proof -
  have i: "reachable ref_enc server_init" "logger server_init = None"
    by (rule reach_init) (simp add: server_init_def)
  have v: "valid_port 55555" "valid_port 5555" "valid_port 5556" by (simp_all add: valid_port_def)
  from endpoint_buffer_overflow [OF i v(1) v(3)] endpoint_buffer_overflow [OF i v(2) v(3)]
  show ?thesis by simp
qed

text \<open>
  Claim C32. A hash sent with a type of another event is not rejected. With a collector type
  the hash is dropped and a bare header queued, with the type of another struct its memory
  is read as that struct, an unknown number raises NotImplementedError, and only the two
  hash types queue the hash.
\<close>

theorem hash_event_types:
  assumes r: "running enc vs l s" and e: "host_enc h = enc" and ok: "hash_ok hash"
    and t: "FIX2INT (Some t) = Inr t'"
    and room: "queued_bytes s + event_bytes h (Hash_event t' hash) s \<le> 2 ^ 63"
  shows "(t' \<in> {6, 8} \<longrightarrow> (\<exists>s'. send_hash_as_event h hash (Some t) s = Inr (None, s')
        \<and> running enc (vs @ [frame_value (host_clock h) t' [(rbkit_message_field_payload, hash_value hash)]]) l s'))
    \<and> (t' \<in> {2, 3, 4} \<longrightarrow> (\<exists>s'. send_hash_as_event h hash (Some t) s = Inr (None, s')
        \<and> running enc (vs @ [frame_value (host_clock h) t' []]) l s'))
    \<and> (t' \<in> {0, 1, 5, 7, 9} \<longrightarrow> send_hash_as_event h hash (Some t) s = Inl Bad_cast)
    \<and> (event_type_of t' = None \<longrightarrow>
        send_hash_as_event h hash (Some t) s = Inl (NotImplementedError (unat t')))"
proof -
  from r have l: "logger s \<noteq> None" by (simp add: running_def)
  note op = send_hash_as_event_def t l e new_rbkit_hash_event_def
  show ?thesis
  proof (intro conjI impI)
    assume t6: "t' \<in> {6, 8}"
    with ok have "event_ok (lg_str_table l) (Hash_event t' hash)" by (auto simp: hash_ok_def)
    from queue_event_running [OF r e this room] l t show
      "\<exists>s'. send_hash_as_event h hash (Some t) s = Inr (None, s')
        \<and> running enc (vs @ [frame_value (host_clock h) t' [(rbkit_message_field_payload, hash_value hash)]]) l s'"
      by (auto simp: op)
  next
    assume t2: "t' \<in> {2, 3, 4}"
    let ?cs = "pack_event_header_only (host_clock h) t'"
    have p: "pack_event enc (host_clock h) tbl c (Hash_event t' hash)
        = Inr (emit enc ?cs, Hash_event t' hash, c)" for tbl c
      using t2 by (auto simp: pack_event_def Let_def)
    then have "queued_bytes s + length (emit enc ?cs) \<le> 2 ^ 63"
      using room by (simp add: event_bytes_def packed_def e)
    from send_running [OF r e packs_header_only this] obtain s' where
      "send_message h (emit enc ?cs) s = Inr s'"
      "running enc (vs @ [frame_value (host_clock h) t' []]) l s'" by blast
    with p l t show "\<exists>s'. send_hash_as_event h hash (Some t) s = Inr (None, s')
        \<and> running enc (vs @ [frame_value (host_clock h) t' []]) l s'"
      by (simp add: op pack_fresh_def)
  next
    assume "t' \<in> {0, 1, 5, 7, 9}"
    then show "send_hash_as_event h hash (Some t) s = Inl Bad_cast"
      using l t by (auto simp: op pack_fresh_def pack_event_def Let_def)
  next
    assume "event_type_of t' = None"
    then show "send_hash_as_event h hash (Some t) s = Inl (NotImplementedError (unat t'))"
      using l t by (simp add: op pack_fresh_def pack_event_def Let_def)
  qed
qed

theorem hash_event_types_witness:
  "\<exists>s. send_hash_as_event example_host [(T_OBJECT ''count'', T_FIXNUM 3)] (Some 0) s = Inl Bad_cast
    \<and> send_hash_as_event example_host [(T_OBJECT ''count'', T_FIXNUM 3)] (Some 77) s
        = Inl (NotImplementedError 77)"
proof -
  let ?hash = "[(T_OBJECT ''count'', T_FIXNUM 3)]"
  from example_one_queued obtain s vs l where s: "running ref_enc vs l s" "queued_bytes s = 41" by blast
  have ok: "hash_ok ?hash" "host_enc example_host = ref_enc" by (simp_all add: hash_ok_def example_host_def)
  have f: "FIX2INT (Some 0) = Inr 0" "FIX2INT (Some 77) = Inr 77" by (simp_all add: FIX2INT_def)
  have n: "event_type_of 77 = None" by (simp add: event_type_of_def event_types_def)
  have b: "event_bytes example_host (Hash_event 0 ?hash) s = 0"
    "event_bytes example_host (Hash_event 77 ?hash) s = 0"
    by (simp_all add: event_bytes_def packed_def pack_event_def n)
  from hash_event_types [OF s(1) ok(2,1) f(1)] hash_event_types [OF s(1) ok(2,1) f(2)] b s(2) n
  show ?thesis by auto
qed

text \<open>The log of library calls only grows.\<close>

lemma start_log_grows:
  "start_stat_server z p q s = Inr (ok, s') \<Longrightarrow> stopped s \<Longrightarrow> set (zmq_log s) \<subseteq> set (zmq_log s')"
proof -
  assume r: "start_stat_server z p q s = Inr (ok, s')" and st: "stopped s"
  have pub: "open_publisher z n t = Inr (b, t') \<Longrightarrow> set (zmq_log t) \<subseteq> set (zmq_log t')" for n t b t'
    by (auto simp: open_publisher_def and_then_eq_Inr log_zmq_def Let_def split: if_splits)
  have resp: "open_responder z n t = Inr (b, t') \<Longrightarrow> set (zmq_log t) \<subseteq> set (zmq_log t')" for n t b t'
    by (auto simp: open_responder_def and_then_eq_Inr log_zmq_def Let_def split: if_splits)
  have track: "start_tracker t = Inr t' \<Longrightarrow> zmq_log t' = zmq_log t" for t t'
    by (auto simp: start_tracker_def tracker_defs Let_def split: option.splits)
  have ctx: "set (zmq_log s) \<subseteq> set (zmq_log (if b then log_zmq c (s\<lparr>server_instance := True, zmq_context := x\<rparr>)
      else s\<lparr>server_instance := True\<rparr>))" for b c x
    by (auto simp: log_zmq_def)
  from r obtain p' q' where p': "FIX2INT p = Inr p'" and q': "FIX2INT q = Inr q'"
    by (auto simp: start_stat_server_def Let_def and_then_eq_Inr)
  let ?c = "if p' \<noteq> 0 \<or> VALUE_of q \<noteq> 0
      then log_zmq (Zmq_ctx_new (new_context z))
        (s\<lparr>server_instance := True, zmq_context := Some (new_context z)\<rparr>)
      else s\<lparr>server_instance := True\<rparr>"
  from r p' q' obtain b1 s1 where o1: "open_publisher z p' ?c = Inr (b1, s1)"
    and rest: "(if \<not> b1 then Inr (False, s1) else and_then (open_responder z q' s1) (\<lambda>(bound, s).
            if \<not> bound then Inr (False, s)
            else and_then (start_tracker s) (\<lambda>s. Inr (True, s)))) = Inr (ok, s')"
    by (auto simp: start_stat_server_def and_then_eq_Inr Let_def split: prod.splits)
  have "set (zmq_log s) \<subseteq> set (zmq_log s1)"
    by (rule subset_trans [OF ctx pub [OF o1]])
  also have "set (zmq_log s1) \<subseteq> set (zmq_log s')"
  proof (cases b1)
    case True
    with rest obtain b2 s2 where "open_responder z q' s1 = Inr (b2, s2)"
      and "(if \<not> b2 then Inr (False, s2) else and_then (start_tracker s2) (\<lambda>s. Inr (True, s))) = Inr (ok, s')"
      by (auto simp: and_then_eq_Inr)
    with resp [of q' s1 b2 s2] track [of s2] show ?thesis
      by (cases b2) (auto simp: and_then_eq_Inr)
  qed (use rest in simp)
  finally show ?thesis .
qed

text \<open>
  Claim C30. A stop closes the sockets but keeps the pointers. When the server is started
  again without a publisher port, every message it publishes is sent on the publisher
  socket of the session before, which has been closed.
\<close>

theorem restart_sends_on_closed_socket:
  assumes r: "running enc vs l s" and k: "zmq_publisher s = Some k" and z: "binds z"
    and q: "0 \<le> q" "q < 10000"
  shows "\<exists>s1 s2. stop_stat_server s = Inr s1 \<and> start_stat_server z (Some 0) (Some q) s1 = Inr (True, s2)
    \<and> Zmq_close (Some k) \<in> set (zmq_log s2)
    \<and> (\<forall>buf. \<exists>s3. publish_message quiet buf s2 = Inr (False, s3)
          \<and> zmq_log s3 = zmq_log s2 @ [Zmq_send k buf])"
proof -
  from stop_stat_server_running [OF r] k obtain s1 where s1: "stop_stat_server s = Inr s1" "stopped s1"
    "zmq_publisher s1 = Some k" "Zmq_close (Some k) \<in> set (zmq_log s1)" by auto
  from start_short [OF s1(2) z, of 0 q] q obtain s2 where
    s2: "start_stat_server z (Some 0) (Some q) s1 = Inr (True, s2)" "zmq_publisher s2 = zmq_publisher s1"
    by auto
  have "Zmq_close (Some k) \<in> set (zmq_log s2)" using start_log_grows [OF s2(1) s1(2)] s1(4) by blast
  moreover have "\<exists>s3. publish_message quiet buf s2 = Inr (False, s3)
      \<and> zmq_log s3 = zmq_log s2 @ [Zmq_send k buf]" for buf
    using s2(2) s1(3) by (simp add: publish_message_def quiet_def log_zmq_def Let_def)
  ultimately show ?thesis using s1(1) s2(1) by blast
qed

theorem restart_sends_on_closed_socket_witness:
  "\<exists>s s1 s2 s3. zmq_publisher s = Some 2 \<and> stop_stat_server s = Inr s1
    \<and> start_stat_server example_zmq (Some 0) (Some 5556) s1 = Inr (True, s2)
    \<and> Zmq_close (Some 2) \<in> set (zmq_log s2)
    \<and> publish_message quiet [1, 2] s2 = Inr (False, s3) \<and> Zmq_send 2 [1, 2] \<in> set (zmq_log s3)"
proof -
  from example_one_queued obtain s vs l where s: "running ref_enc vs l s" "zmq_publisher s = Some 2" by blast
  from restart_sends_on_closed_socket [OF s example_binds, of 5556] obtain s1 s2 where
    "stop_stat_server s = Inr s1" "start_stat_server example_zmq (Some 0) (Some 5556) s1 = Inr (True, s2)"
    "Zmq_close (Some 2) \<in> set (zmq_log s2)"
    "\<exists>s3. publish_message quiet [1, 2] s2 = Inr (False, s3) \<and> zmq_log s3 = zmq_log s2 @ [Zmq_send 2 [1, 2]]"
    by auto
  with s(2) show ?thesis by fastforce
qed

text \<open>
  Claim C31. A sampling job that a signal left behind is not withdrawn when the profiler and
  the server are stopped: when the VM runs it, it queues its sample into the list that
  the stop has freed.
\<close>

lemma queue_message_destroyed:
  assumes "message_array m = Dangling" "total_capacity m = 0" "used_memsize m = 0"
  shows "queue_message buf m = Inl Use_after_free"
proof (cases "has_enough_space_for (of_nat (length buf)) m")
  case True
  then show ?thesis using assms by (simp add: queue_message_def grow_loop_done memcpy_at_def Let_def)
next
  case False
  have "grow_loop (of_nat (length buf)) m = Some (Inl Use_after_free)"
    unfolding grow_loop_def using False assms
    by (subst while_option_unfold, simp, subst while_option_unfold) (simp add: double_the_capacity_def Let_def)
  then show ?thesis by (simp add: queue_message_def Let_def)
qed

theorem sampling_job_after_stop:
  assumes r: "running enc vs l s" and j: "jobs s = Sampling_job # js" and f: "queue_func_set (cpu_profiler s)"
    and smp: "sampling_job_sample frames tid = Inr smp"
    and ok: "\<And>tbl. event_ok tbl (new_rbkit_cpu_sample_event smp)"
  shows "\<exists>s1. stop_stat_server s = Inr s1 \<and> run_job h frames tid during s1 = Inl Use_after_free"
proof -
  from stop_stat_server_running [OF r] obtain s1 where s1: "stop_stat_server s = Inr s1"
    "message_array (messages s1) = Dangling" "total_capacity (messages s1) = 0"
    "used_memsize (messages s1) = 0" "jobs s1 = jobs s" "cpu_profiler s1 = cpu_profiler s" by blast
  from pack_event_calls [OF ok] obtain cs ev' where
    "\<And>enc counter. pack_event enc (host_clock h) (strings_of s1) counter (new_rbkit_cpu_sample_event smp)
       = Inr (emit enc cs, ev', counter)" by blast
  with s1 j f smp queue_message_destroyed [OF s1(2-4)] show ?thesis
    by (simp add: run_job_def sampling_job_handler_def queue_cpu_sample_for_sending_def pack_fresh_def
      strings_of_def send_message_def)
qed

text \<open>The profiler on, its timer expires, the profiler off: the job is still there.\<close>

lemma example_pending_sample:
  "\<exists>s l. running ref_enc [] l s \<and> jobs s = [Sampling_job] \<and> queue_func_set (cpu_profiler s)
    \<and> (\<forall>w. \<not> armed (cpu_profiler s) w)"
proof -
  from start_short [OF stopped_init example_binds, of 5555 5556] obtain s where
    s: "start_stat_server example_zmq (Some 5555) (Some 5556) server_init = Inr (True, s)" "jobs s = []"
    by (auto simp: server_init_def)
  from start_stat_server_result [OF stopped_init s(1), of ref_enc] obtain l where
    l: "running ref_enc [] l s" "\<not> lg_sampling_profiler_enabled l"
    and pr: "cpu_profiler s = profiler_init" by (auto simp: server_init_def)
  have usec: "sint (1000 :: c_int) = 1000" by simp
  let ?p1 = "rbkit_install_sampling_profiler True 1000 profiler_init"
  let ?s1 = "set_sampling True (s\<lparr>cpu_profiler := ?p1\<rparr>)"
  let ?s2 = "timer_expires example_host ITIMER_REAL ?s1"
  let ?s3 = "set_sampling False (?s2\<lparr>cpu_profiler := rbkit_uninstall_sampling_profiler (cpu_profiler ?s2)\<rparr>)"
  from set_sampling_running [OF l(1)] have
    r1: "running ref_enc [] (l\<lparr>lg_sampling_profiler_enabled := True\<rparr>) ?s1" .
  then have r2: "running ref_enc [] (l\<lparr>lg_sampling_profiler_enabled := True\<rparr>) ?s2"
    by (subst running_cong [of ?s2 ?s1]) (simp_all add: timer_expires_frame)
  have "expire w ?p1 = ?p1" for w using expire_periodic [of ?p1 w 1]
    by (cases w) (simp_all add: profiler_defs usec profiler_init_def timer_off_def)
  then have "cpu_profiler ?s2 = ?p1" by (simp add: timer_expires_frame set_sampling_def)
  then have "jobs ?s3 = [Sampling_job]" "queue_func_set (cpu_profiler ?s3)"
    "\<forall>w. \<not> armed (cpu_profiler ?s3) w"
    using s(2)
    by (auto simp: timer_expires_def set_sampling_def profiler_defs profiler_init_def usec signal_handler_def timer_off_def
      postponed_job_register_one_def postponed_job_register_def example_host_def)
  with set_sampling_running [OF r2] show ?thesis by blast
qed

theorem sampling_job_after_stop_witness:
  "\<exists>s s1. jobs s = [Sampling_job] \<and> stop_stat_server s = Inr s1
    \<and> run_job example_host example_frames 9 quiet s1 = Inl Use_after_free"
proof -
  from example_pending_sample obtain s l where
    s: "running ref_enc [] l s" "jobs s = [Sampling_job]" "queue_func_set (cpu_profiler s)" by blast
  have fs: "length (example_frames 0 BUF_SIZE) \<le> BUF_SIZE" "list_all frame_ok (example_frames 0 BUF_SIZE)"
    by (simp_all add: example_frames_def BUF_SIZE_def frame_ok_def)
  let ?ds = "map (frame_data_of 9) (example_frames 0 BUF_SIZE)"
  let ?smp = "\<lparr>sample_frame_count = of_nat (length (example_frames 0 BUF_SIZE)), sample_frames = ?ds\<rparr>"
  have smp: "sampling_job_sample example_frames 9 = Inr ?smp"
    using fs by (simp add: sampling_job_sample_def Let_def sample_frame_list_ok)
  have "event_ok tbl (new_rbkit_cpu_sample_event ?smp)" for tbl
    by (simp add: new_rbkit_cpu_sample_event_def example_frames_def BUF_SIZE_def frame_data_ok_def
      frame_data_of_def short_def)
  from sampling_job_after_stop [OF s(1,2,3) smp this] s(2) show ?thesis by blast
qed

end
