(* ===== verification/Gc_Stats.thy ===== *)
theory Gc_Stats
  imports Server_Reachable
begin

text \<open>
  \<open>lib/rbkit/rbkit_gc.rb\<close>: the collector statistics under one set of names for every
  version of Ruby, and as the hash the C server packs. What \<open>GC.stat\<close>, the constants of
  the collector and \<open>ObjectSpace.memsize_of_all\<close> answer are arguments.
\<close>

section \<open>The statistics\<close>

text \<open>\<open>String#>=\<close> compares byte by byte; a proper prefix is smaller.\<close>

fun string_at_least :: "string \<Rightarrow> string \<Rightarrow> bool" where
  "string_at_least s [] = True"
| "string_at_least [] (d # t) = False"
| "string_at_least (c # s) (d # t) =
     (if of_char c = (of_char d :: nat) then string_at_least s t else (of_char d :: nat) < of_char c)"

text \<open>The three counts every version has, the names since Ruby 2.2, and those Ruby 2.1 has for them.\<close>

definition count_keys :: "string list" where
  "count_keys = [''count'', ''minor_gc_count'', ''major_gc_count'']"

definition heap_keys :: "string list" where
  "heap_keys =
     [''heap_allocated_pages'', ''heap_eden_pages'', ''heap_tomb_pages'', ''heap_allocatable_pages'',
      ''heap_sorted_length'', ''heap_live_slots'', ''heap_free_slots'', ''heap_final_slots'',
      ''heap_swept_slots'', ''old_objects'', ''old_objects_limit'', ''total_allocated_objects'',
      ''total_freed_objects'', ''malloc_increase_bytes'', ''malloc_increase_bytes_limit'',
      ''oldmalloc_increase_bytes'', ''oldmalloc_increase_bytes_limit'',
      ''remembered_wb_unprotected_objects'', ''remembered_wb_unprotected_objects_limit'']"

definition heap_keys_2_1 :: "(string \<times> string) list" where
  "heap_keys_2_1 =
     [(''heap_allocated_pages'', ''heap_used''),
      (''heap_eden_pages'', ''heap_eden_page_length''),
      (''heap_tomb_pages'', ''heap_tomb_page_length''),
      (''heap_allocatable_pages'', ''heap_increment''),
      (''heap_sorted_length'', ''heap_length''),
      (''heap_live_slots'', ''heap_live_slot''),
      (''heap_free_slots'', ''heap_free_slot''),
      (''heap_final_slots'', ''heap_final_slot''),
      (''heap_swept_slots'', ''heap_swept_slot''),
      (''old_objects'', ''old_object''),
      (''old_objects_limit'', ''old_object_limit''),
      (''total_allocated_objects'', ''total_allocated_object''),
      (''total_freed_objects'', ''total_freed_object''),
      (''malloc_increase_bytes'', ''malloc_increase''),
      (''malloc_increase_bytes_limit'', ''malloc_limit''),
      (''oldmalloc_increase_bytes'', ''oldmalloc_increase''),
      (''oldmalloc_increase_bytes_limit'', ''oldmalloc_limit''),
      (''remembered_wb_unprotected_objects'', ''remembered_shady_object''),
      (''remembered_wb_unprotected_objects_limit'', ''remembered_shady_object_limit'')]"

text \<open>
  \<open>*\<close> on what a Hash lookup gave: nil has no such method, and an Integer does not take nil.
\<close>

definition ruby_times :: "int option \<Rightarrow> int option \<Rightarrow> c_error + int option" where
  "ruby_times x y =
     (case x of
        None \<Rightarrow> Inl NoMethodError
      | Some i \<Rightarrow> (case y of None \<Rightarrow> Inl TypeError | Some j \<Rightarrow> Inr (Some (i * j))))"

text \<open>
  \<open>data\<close> is what \<open>GC.stat\<close> returns, nil for a key it does not have; \<open>internal_constants\<close> is
  the Hash \<open>GC::INTERNAL_CONSTANTS\<close>, where there is such a constant. The \<open>rescue 0\<close> of the
  source guards the lookup of the page count, which does not raise; it does not cover the
  product.
\<close>

definition gc_stat :: "string \<Rightarrow> (string \<Rightarrow> int option) \<Rightarrow> (string \<Rightarrow> int option) option \<Rightarrow> int
    \<Rightarrow> c_error + (string \<times> int option) list" where
  "gc_stat version data internal_constants memsize_of_all =
     (let stats = map (\<lambda>k. (k, data k)) count_keys;
          stats = stats @
            (if string_at_least version ''2.2.0'' then map (\<lambda>k. (k, data k)) heap_keys
             else if string_at_least version ''2.1.0'' then map (\<lambda>(k, old). (k, data old)) heap_keys_2_1
             else []);
          no_of_allocated_pages =
            (case map_of stats ''heap_allocated_pages'' of None \<Rightarrow> None | Some v \<Rightarrow> v)
      in case internal_constants of
           None \<Rightarrow> Inl NameError
         | Some sizes \<Rightarrow>
             and_then (ruby_times no_of_allocated_pages (sizes ''HEAP_OBJ_LIMIT'')) (\<lambda>objects.
             and_then (ruby_times objects (sizes ''RVALUE_SIZE'')) (\<lambda>total_heap_size.
             Inr (stats @ [(''total_heap_size'', total_heap_size),
                           (''total_memsize'', Some memsize_of_all)]))))"

text \<open>
  The hash as the C server sees it: an Integer is a fixnum up to 62 bits and else goes out
  as its digits, and nil as the empty string.
\<close>

definition int_to_s :: "int \<Rightarrow> string" where
  "int_to_s i = (if i < 0 then CHR ''-'' # digits (nat (- i)) else digits (nat i))"

definition ruby_integer :: "int \<Rightarrow> rb_object" where
  "ruby_integer i = (if - (2 ^ 62) \<le> i \<and> i < 2 ^ 62 then T_FIXNUM (of_int i) else T_OBJECT (int_to_s i))"

definition stats_hash :: "(string \<times> int option) list \<Rightarrow> rb_hash" where
  "stats_hash stats =
     map (\<lambda>(k, v). (T_OBJECT k, case v of None \<Rightarrow> T_OBJECT '''' | Some i \<Rightarrow> ruby_integer i)) stats"

section \<open>Properties\<close>

text \<open>
  The keys in the order in which they go out. The comment on the method has the same list.
\<close>

definition stat_keys :: "string list" where
  "stat_keys = count_keys @ heap_keys
     @ [''total_heap_size'', ''total_memsize'']"

text \<open>The list of \<open>docs/protocol.md\<close>, which lacks two of them.\<close>

definition protocol_stat_keys :: "string list" where
  "protocol_stat_keys =
     [''count'', ''minor_gc_count'', ''major_gc_count'',
      ''heap_allocated_pages'', ''heap_eden_pages'', ''heap_tomb_pages'', ''heap_allocatable_pages'',
      ''heap_sorted_length'', ''heap_live_slots'', ''heap_free_slots'', ''heap_final_slots'',
      ''heap_swept_slots'', ''old_objects'', ''old_objects_limit'', ''total_allocated_objects'',
      ''total_freed_objects'', ''malloc_increase_bytes'', ''malloc_increase_bytes_limit'',
      ''oldmalloc_increase_bytes'', ''oldmalloc_increase_bytes_limit'',
      ''total_heap_size'', ''total_memsize'']"

definition undocumented_stat_keys :: "string list" where
  "undocumented_stat_keys =
     [''remembered_wb_unprotected_objects'', ''remembered_wb_unprotected_objects_limit'']"

lemma documented_keys:
  "filter (\<lambda>k. k \<notin> set undocumented_stat_keys) stat_keys = protocol_stat_keys"
  unfolding stat_keys_def heap_keys_def count_keys_def undocumented_stat_keys_def protocol_stat_keys_def
  by code_simp

definition stat_source :: "string \<Rightarrow> string \<Rightarrow> string" where
  "stat_source version k =
     (if string_at_least version ''2.2.0'' then k
      else case map_of heap_keys_2_1 k of None \<Rightarrow> k | Some old \<Rightarrow> old)"

lemma heap_keys_2_1_names: "map fst heap_keys_2_1 = heap_keys"
  by (simp add: heap_keys_def heap_keys_2_1_def)

lemma distinct_keys: "distinct stat_keys"
  unfolding stat_keys_def heap_keys_def count_keys_def by code_simp

lemma renamed_keys:
  "map (\<lambda>k. (k, f (case map_of heap_keys_2_1 k of None \<Rightarrow> k | Some old \<Rightarrow> old))) heap_keys
     = map (\<lambda>(k, old). (k, f old)) heap_keys_2_1"
proof -
  have d: "distinct (map fst heap_keys_2_1)"
    using distinct_keys by (simp add: heap_keys_2_1_names stat_keys_def)
  show ?thesis
    unfolding heap_keys_2_1_names [symmetric] map_map
    by (rule map_cong [OF refl]) (auto simp: map_of_is_SomeI [OF d])
qed

lemma digits_length: "n < 10 ^ k \<Longrightarrow> 0 < k \<Longrightarrow> length (digits n) \<le> k"
proof (induction k arbitrary: n)
  case (Suc k)
  show ?case
  proof (cases "n < 10")
    case True
    then show ?thesis by (simp add: digits.simps [of n])
  next
    case False
    with Suc.prems(1) have "0 < k" by (cases k) auto
    moreover from Suc.prems(1) have "n div 10 < 10 ^ k" by (simp add: less_mult_imp_div_less mult.commute)
    ultimately have "length (digits (n div 10)) \<le> k" by (rule Suc.IH [rotated])
    with False show ?thesis by (simp add: digits.simps [of n])
  qed
qed simp

lemma digits_no_nul: "CHR 0x00 \<notin> set (digits n)"
proof (induction n rule: digits.induct)
  case (1 n)
  have c: "CHR 0x00 \<noteq> char_of (48 + m)" if "m < 10" for m :: nat
  proof
    assume "CHR 0x00 = char_of (48 + m)"
    then have "of_char (CHR 0x00) = (of_char (char_of (48 + m)) :: nat)" by simp
    with that show False by simp
  qed
  have "n mod 10 < 10" by simp
  with 1 c show ?case by (auto simp: digits.simps [of n])
qed


lemma at_least_2_1: "string_at_least v ''2.2.0'' \<Longrightarrow> string_at_least v ''2.1.0''"
proof (cases v)
  case (Cons a v1)
  assume v: "string_at_least v ''2.2.0''"
  show ?thesis
  proof (cases v1)
    case Nil
    with v Cons show ?thesis by (auto split: if_splits)
  next
    case c1: (Cons b v2)
    show ?thesis
    proof (cases v2)
      case Nil
      with v Cons c1 show ?thesis by (auto split: if_splits)
    next
      case c2: (Cons c v3)
      with v Cons c1 show ?thesis by (auto split: if_splits)
    qed
  qed
qed simp

lemma ruby_integer_ok: "\<bar>i\<bar> < 10 ^ 40 \<Longrightarrow> object_ok (ruby_integer i)"
proof -
  assume "\<bar>i\<bar> < 10 ^ 40"
  then have "nat \<bar>i\<bar> < 10 ^ 40" by simp
  from digits_length [OF this] have "length (digits (nat \<bar>i\<bar>)) \<le> 40" by simp
  moreover have "CHR 0x00 \<noteq> CHR ''-''" by simp
  ultimately have "length (int_to_s i) < 2 ^ 31" "CHR 0x00 \<notin> set (int_to_s i)"
    using digits_no_nul [of "nat i"] digits_no_nul [of "nat (- i)"]
    by (auto simp: int_to_s_def abs_if split: if_splits)
  then show ?thesis by (simp add: ruby_integer_def)
qed

lemma gc_stats_renamed:
  assumes "string_at_least version ''2.1.0''"
    and pages: "data (stat_source version ''heap_allocated_pages'') = Some pages"
    and small: "\<forall>k i. data k = Some i \<longrightarrow> \<bar>i\<bar> < 2 ^ 64" "\<bar>pages * slots * slot_size\<bar> < 2 ^ 128"
      "\<bar>memsize\<bar> < 2 ^ 64"
    and const: "sizes ''HEAP_OBJ_LIMIT'' = Some slots" "sizes ''RVALUE_SIZE'' = Some slot_size"
  shows "\<exists>stats. gc_stat version data (Some sizes) memsize = Inr stats
    \<and> map fst stats = stat_keys \<and> distinct stat_keys
    \<and> map snd (take 22 stats) = map (\<lambda>k. data (stat_source version k)) (take 22 stat_keys)
    \<and> drop 22 stats = [(''total_heap_size'', Some (pages * slots * slot_size)), (''total_memsize'', Some memsize)]
    \<and> hash_ok (stats_hash stats)"
proof -
  let ?heap = "map (\<lambda>k. (k, data (stat_source version k))) heap_keys"
  let ?all = "map (\<lambda>k. (k, data k)) count_keys @ ?heap"
  let ?stats = "?all @ [(''total_heap_size'', Some (pages * slots * slot_size)), (''total_memsize'', Some memsize)]"
  have first: "stat_source version k = k" if "k \<in> set count_keys" for k
  proof -
    from distinct_keys have "set count_keys \<inter> set heap_keys = {}"
      by (simp add: stat_keys_def Int_Un_distrib)
    with that have "k \<notin> fst ` set heap_keys_2_1"
      unfolding heap_keys_2_1_names [symmetric] set_map by blast
    then have "map_of heap_keys_2_1 k = None" unfolding map_of_eq_None_iff .
    then show ?thesis by (simp add: stat_source_def)
  qed
  have branch: "(if string_at_least version ''2.2.0'' then map (\<lambda>k. (k, data k)) heap_keys
      else if string_at_least version ''2.1.0'' then map (\<lambda>(k, old). (k, data old)) heap_keys_2_1 else []) = ?heap"
    using assms(1) renamed_keys [of data] by (simp add: stat_source_def)
  have "map_of ?all ''heap_allocated_pages'' = Some (Some pages)"
    using pages by (simp add: heap_keys_def count_keys_def)
  then have "gc_stat version data (Some sizes) memsize = Inr ?stats"
    unfolding gc_stat_def Let_def branch by (simp add: ruby_times_def const)
  moreover have "map fst ?stats = stat_keys" by (simp add: stat_keys_def comp_def)
  moreover note distinct_keys
  moreover have n: "length heap_keys = 19" "length count_keys = 3" by (simp_all add: heap_keys_def count_keys_def)
  moreover have "take 22 stat_keys = count_keys @ heap_keys" using n by (simp add: stat_keys_def)
  moreover have "map snd (take 22 ?stats) = map (\<lambda>k. data (stat_source version k)) (count_keys @ heap_keys)"
    using n first by (simp add: comp_def)
  moreover have "drop 22 ?stats = [(''total_heap_size'', Some (pages * slots * slot_size)),
      (''total_memsize'', Some memsize)]" using n by simp
  moreover have "hash_ok (stats_hash ?stats)"
  proof -
    have v: "object_ok (case data k of None \<Rightarrow> T_OBJECT '''' | Some i \<Rightarrow> ruby_integer i)" for k
    proof (cases "data k")
      case (Some i)
      with small(1) have "\<bar>i\<bar> < 2 ^ 64" by blast
      with Some show ?thesis by (simp add: ruby_integer_ok)
    qed simp
    have k: "list_all (\<lambda>k. length k < 2 ^ 31 \<and> CHR 0x00 \<notin> set k) stat_keys"
      by (simp add: stat_keys_def heap_keys_def count_keys_def)
    have "object_ok (ruby_integer (pages * slots * slot_size))" "object_ok (ruby_integer memsize)"
      using small(2,3) by (simp_all add: ruby_integer_ok)
    with v k n show ?thesis by (auto simp: hash_ok_def stats_hash_def list_all_iff stat_keys_def)
  qed
  ultimately show ?thesis by auto
qed

text \<open>The page count as the product sees it.\<close>

lemma gc_stat_product:
  "\<exists>stats pages. gc_stat version data (Some sizes) memsize =
     and_then (ruby_times pages (sizes ''HEAP_OBJ_LIMIT'')) (\<lambda>objects.
     and_then (ruby_times objects (sizes ''RVALUE_SIZE'')) (\<lambda>size.
     Inr (stats @ [(''total_heap_size'', size), (''total_memsize'', Some memsize)])))
   \<and> pages = (if string_at_least version ''2.1.0'' then data (stat_source version ''heap_allocated_pages'') else None)"
proof -
  let ?stats = "map (\<lambda>k. (k, data k)) count_keys
      @ (if string_at_least version ''2.2.0'' then map (\<lambda>k. (k, data k)) heap_keys
         else if string_at_least version ''2.1.0'' then map (\<lambda>(k, old). (k, data old)) heap_keys_2_1 else [])"
  let ?pages = "case map_of ?stats ''heap_allocated_pages'' of None \<Rightarrow> None | Some v \<Rightarrow> v"
  have "map_of ?stats ''heap_allocated_pages'' = (if string_at_least version ''2.1.0''
       then Some (data (stat_source version ''heap_allocated_pages'')) else None)"
    using at_least_2_1 [of version]
    by (simp add: stat_source_def heap_keys_def heap_keys_2_1_def count_keys_def)
  then have "?pages = (if string_at_least version ''2.1.0''
      then data (stat_source version ''heap_allocated_pages'') else None)" by simp
  moreover have "gc_stat version data (Some sizes) memsize =
     and_then (ruby_times ?pages (sizes ''HEAP_OBJ_LIMIT'')) (\<lambda>objects.
     and_then (ruby_times objects (sizes ''RVALUE_SIZE'')) (\<lambda>size.
     Inr (?stats @ [(''total_heap_size'', size), (''total_memsize'', Some memsize)])))"
    unfolding gc_stat_def Let_def by (simp only: option.case)
  ultimately show ?thesis by blast
qed

text \<open>
  Claim C35. When the statistics can be taken, and what happens when they cannot. On a Ruby
  from 2.1 on whose \<open>GC.stat\<close> has the page count and whose collector constants have both
  sizes, with numbers of machine size, they are 24 distinct keys: the 22 of the protocol
  document in its order and, before the last two of these, two more that the document does
  not list. The value of each is the one \<open>GC.stat\<close> has under the name of that version, the
  heap size is the product of pages, slots and slot size, and the hash can be packed. Without
  the constants they raise NameError; with them, before Ruby 2.1 or without a page count,
  NoMethodError, since nil has no product; and with a page count but without one of the
  two sizes TypeError. Each of these ends the dispatch thread that asked.
\<close>

theorem gc_stats_standard:
  fixes version :: string and data :: "string \<Rightarrow> int option"
  shows "(string_at_least version ''2.1.0''
      \<and> data (stat_source version ''heap_allocated_pages'') = Some pages
      \<and> sizes ''HEAP_OBJ_LIMIT'' = Some slots \<and> sizes ''RVALUE_SIZE'' = Some slot_size
      \<and> (\<forall>k i. data k = Some i \<longrightarrow> \<bar>i\<bar> < 2 ^ 64) \<and> \<bar>pages * slots * slot_size\<bar> < 2 ^ 128 \<and> \<bar>memsize\<bar> < 2 ^ 64
    \<longrightarrow> (\<exists>stats. gc_stat version data (Some sizes) memsize = Inr stats
        \<and> map fst stats = stat_keys \<and> distinct stat_keys \<and> length stats = 24
        \<and> filter (\<lambda>k. k \<notin> set undocumented_stat_keys) (map fst stats) = protocol_stat_keys
        \<and> map snd (take 22 stats) = map (\<lambda>k. data (stat_source version k)) (take 22 stat_keys)
        \<and> drop 22 stats = [(''total_heap_size'', Some (pages * slots * slot_size)), (''total_memsize'', Some memsize)]
        \<and> hash_ok (stats_hash stats)))
    \<and> gc_stat version data None memsize = Inl NameError
    \<and> (\<not> string_at_least version ''2.1.0'' \<or> data (stat_source version ''heap_allocated_pages'') = None
        \<longrightarrow> gc_stat version data (Some sizes) memsize = Inl NoMethodError)
    \<and> (string_at_least version ''2.1.0'' \<and> data (stat_source version ''heap_allocated_pages'') \<noteq> None
        \<and> (sizes ''HEAP_OBJ_LIMIT'' = None \<or> sizes ''RVALUE_SIZE'' = None)
        \<longrightarrow> gc_stat version data (Some sizes) memsize = Inl TypeError)"
proof (intro conjI impI)
  assume a: "string_at_least version ''2.1.0''
      \<and> data (stat_source version ''heap_allocated_pages'') = Some pages
      \<and> sizes ''HEAP_OBJ_LIMIT'' = Some slots \<and> sizes ''RVALUE_SIZE'' = Some slot_size
      \<and> (\<forall>k i. data k = Some i \<longrightarrow> \<bar>i\<bar> < 2 ^ 64) \<and> \<bar>pages * slots * slot_size\<bar> < 2 ^ 128 \<and> \<bar>memsize\<bar> < 2 ^ 64"
  then have p: "string_at_least version ''2.1.0''"
    "data (stat_source version ''heap_allocated_pages'') = Some pages"
    "\<forall>k i. data k = Some i \<longrightarrow> \<bar>i\<bar> < 2 ^ 64" "\<bar>pages * slots * slot_size\<bar> < 2 ^ 128" "\<bar>memsize\<bar> < 2 ^ 64"
    "sizes ''HEAP_OBJ_LIMIT'' = Some slots" "sizes ''RVALUE_SIZE'' = Some slot_size" by blast+
  from gc_stats_renamed [where sizes = sizes, OF p] obtain stats where
    st: "gc_stat version data (Some sizes) memsize = Inr stats" "map fst stats = stat_keys"
      "distinct stat_keys" "map snd (take 22 stats) = map (\<lambda>k. data (stat_source version k)) (take 22 stat_keys)"
      "drop 22 stats = [(''total_heap_size'', Some (pages * slots * slot_size)), (''total_memsize'', Some memsize)]"
      "hash_ok (stats_hash stats)" by blast
  have "length stat_keys = 24" by (simp add: stat_keys_def heap_keys_def count_keys_def)
  then have "length stats = 24" by (metis length_map st(2))
  moreover have "filter (\<lambda>k. k \<notin> set undocumented_stat_keys) (map fst stats) = protocol_stat_keys"
    using documented_keys st(2) by simp
  ultimately
  show "\<exists>stats. gc_stat version data (Some sizes) memsize = Inr stats
        \<and> map fst stats = stat_keys \<and> distinct stat_keys \<and> length stats = 24
        \<and> filter (\<lambda>k. k \<notin> set undocumented_stat_keys) (map fst stats) = protocol_stat_keys
        \<and> map snd (take 22 stats) = map (\<lambda>k. data (stat_source version k)) (take 22 stat_keys)
        \<and> drop 22 stats = [(''total_heap_size'', Some (pages * slots * slot_size)), (''total_memsize'', Some memsize)]
        \<and> hash_ok (stats_hash stats)"
    using st by blast
next
  show "gc_stat version data None memsize = Inl NameError" by (simp add: gc_stat_def Let_def)
next
  assume "\<not> string_at_least version ''2.1.0'' \<or> data (stat_source version ''heap_allocated_pages'') = None"
  with gc_stat_product [of version data sizes memsize]
  show "gc_stat version data (Some sizes) memsize = Inl NoMethodError" by (auto simp: ruby_times_def)
next
  assume "string_at_least version ''2.1.0'' \<and> data (stat_source version ''heap_allocated_pages'') \<noteq> None
    \<and> (sizes ''HEAP_OBJ_LIMIT'' = None \<or> sizes ''RVALUE_SIZE'' = None)"
  with gc_stat_product [of version data sizes memsize]
  show "gc_stat version data (Some sizes) memsize = Inl TypeError"
    by (auto simp: ruby_times_def split: option.splits)
qed

theorem gc_stats_standard_witness:
  "(\<exists>stats. gc_stat ''2.1.5'' (\<lambda>k. if k = ''heap_used'' then Some 70 else Some 5)
        (Some (\<lambda>k. if k = ''RVALUE_SIZE'' then Some 40 else Some 408)) 100000 = Inr stats
      \<and> map fst stats = stat_keys
      \<and> drop 22 stats = [(''total_heap_size'', Some 1142400), (''total_memsize'', Some 100000)])
    \<and> gc_stat ''2.7.0'' (\<lambda>k. Some 5) (Some (\<lambda>k. if k = ''RVALUE_SIZE'' then Some 40 else None)) 100000
      = Inl TypeError
    \<and> gc_stat ''1.9.3'' (\<lambda>k. Some 5) (Some (\<lambda>k. Some 40)) 100000 = Inl NoMethodError"
proof -
  let ?data = "\<lambda>k. if k = ''heap_used'' then Some 70 else Some (5 :: int)"
    and ?const = "\<lambda>k. if k = ''RVALUE_SIZE'' then Some 40 else Some (408 :: int)"
    and ?lacks = "\<lambda>k. if k = ''RVALUE_SIZE'' then Some 40 else (None :: int option)"
  have p: "string_at_least ''2.1.5'' ''2.1.0'' \<and> ?data (stat_source ''2.1.5'' ''heap_allocated_pages'') = Some 70
    \<and> ?const ''HEAP_OBJ_LIMIT'' = Some 408 \<and> ?const ''RVALUE_SIZE'' = Some 40
    \<and> (\<forall>k i. ?data k = Some i \<longrightarrow> \<bar>i\<bar> < 2 ^ 64) \<and> \<bar>70 * 408 * 40 :: int\<bar> < 2 ^ 128 \<and> \<bar>100000 :: int\<bar> < 2 ^ 64"
    by (simp add: stat_source_def heap_keys_2_1_def)
  from gc_stats_standard [THEN conjunct1, THEN mp, OF p]
  have "\<exists>stats. gc_stat ''2.1.5'' ?data (Some ?const) 100000 = Inr stats \<and> map fst stats = stat_keys
      \<and> drop 22 stats = [(''total_heap_size'', Some 1142400), (''total_memsize'', Some 100000)]" by auto
  with gc_stats_standard [of "''2.7.0''" "\<lambda>k. Some 5" 5 ?lacks 0 0 100000]
    gc_stats_standard [of "''1.9.3''" "\<lambda>k. Some 5" 5 "\<lambda>k. Some 40" 40 40 100000]
  show ?thesis by simp
qed

end
