(* ===== verification/Ruby_Server.thy ===== *)
theory Ruby_Server
  imports Gc_Stats
begin

text \<open>
  \<open>lib/rbkit/server.rb\<close>, \<open>lib/rbkit/timer.rb\<close> and \<open>lib/rbkit.rb\<close>: the Ruby class that owns
  the C server. Its instance variables, the state of the C extension and the dispatch
  threads are one state; each public method is an operation on it, and the dispatch
  thread is a small program with a program counter, so that calls of the application can
  come between its steps.
\<close>

section \<open>Ruby values and exceptions\<close>

text \<open>An object that is neither nil, false, a Symbol nor an Integer is \<open>Rb_object\<close>.\<close>

datatype ruby_value = Rb_nil | Rb_false | Rb_symbol string | Rb_int int | Rb_object

definition truthy :: "ruby_value \<Rightarrow> bool" where
  "truthy v \<longleftrightarrow> v \<noteq> Rb_nil \<and> v \<noteq> Rb_false"

text \<open>What \<open>SYMBOL_P\<close> and \<open>FIX2INT\<close> see of a value.\<close>

fun symbol_name :: "ruby_value \<Rightarrow> string option" where
  "symbol_name (Rb_symbol n) = Some n"
| "symbol_name _ = None"

fun integer_of :: "ruby_value \<Rightarrow> int option" where
  "integer_of (Rb_int i) = Some i"
| "integer_of _ = None"

text \<open>The exceptions among the outcomes of C code; the others end the process.\<close>

fun ruby_exception :: "c_error \<Rightarrow> bool" where
  "ruby_exception (NotImplementedError n) = True"
| "ruby_exception ArgumentError = True"
| "ruby_exception TypeError = True"
| "ruby_exception RangeError = True"
| "ruby_exception NameError = True"
| "ruby_exception NoMethodError = True"
| "ruby_exception _ = False"

text \<open>How a Ruby method ends. \<open>Raised None\<close> is an exception of the application's own callback.\<close>

datatype 'a completion = Returned 'a | Raised "c_error option"

section \<open>State\<close>

text \<open>The interval in seconds, the time of the last run in nanoseconds.\<close>

record ruby_timer =
  timer_interval :: int
  last_fired_at :: int

text \<open>The instance variables of \<open>Rbkit::Server\<close>; the callbacks are part of the C server's state.\<close>

record ruby_server =
  iv_pub_port :: int
  iv_request_port :: int
  iv_stop_profiler_thread :: bool
  iv_server_running :: bool
  iv_enable_gc_stats :: bool
  iv_clock_type :: ruby_value
  iv_cpu_profiling_mode :: ruby_value
  iv_cpu_sampling_interval_usec :: ruby_value
  iv_gc_stats_timer :: ruby_timer
  iv_message_dispatch_timer :: ruby_timer

text \<open>Where a dispatch thread is: before the call it makes next.\<close>

datatype dispatch_pc =
    At_top
  | At_poll
  | At_request string
  | At_command string
  | At_ack
  | At_gc_timer
  | At_dispatch_timer
  | Finished

record app =
  inst :: ruby_server
  native :: server
  dispatchers :: "dispatch_pc list"

definition set_inst :: "(ruby_server \<Rightarrow> ruby_server) \<Rightarrow> app \<Rightarrow> app" where
  "set_inst f a = a\<lparr>inst := f (inst a)\<rparr>"

text \<open>The rest of a method runs only when the call before it returned.\<close>

definition ruby_then ::
  "c_error + 'a completion \<times> app \<Rightarrow> ('a \<Rightarrow> app \<Rightarrow> c_error + 'b completion \<times> app)
     \<Rightarrow> c_error + 'b completion \<times> app" where
  "ruby_then r k = and_then r (\<lambda>(x, a). case x of Returned v \<Rightarrow> k v a | Raised e \<Rightarrow> Inr (Raised e, a))"

text \<open>A call into the extension. An exception leaves the state of before the call.\<close>

definition native_call :: "(server \<Rightarrow> c_error + server) \<Rightarrow> app \<Rightarrow> c_error + unit completion \<times> app" where
  "native_call f a =
     (case f (native a) of
        Inl e \<Rightarrow> if ruby_exception e then Inr (Raised (Some e), a) else Inl e
      | Inr s \<Rightarrow> Inr (Returned (), a\<lparr>native := s\<rparr>))"

text \<open>A call that ends in a callback of the application, which may raise.\<close>

definition native_reply ::
  "(server \<Rightarrow> c_error + bool \<times> server) \<Rightarrow> app \<Rightarrow> c_error + unit completion \<times> app" where
  "native_reply f a =
     (case f (native a) of
        Inl e \<Rightarrow> if ruby_exception e then Inr (Raised (Some e), a) else Inl e
      | Inr (raised, s) \<Rightarrow> Inr (if raised then Raised None else Returned (), a\<lparr>native := s\<rparr>))"

section \<open>The methods\<close>

text \<open>\<open>(1024..65000).include?\<close>, and 0 for a port that is not used.\<close>

definition validate_port_range :: "int \<Rightarrow> bool" where
  "validate_port_range port \<longleftrightarrow> port = 0 \<or> (1024 \<le> port \<and> port \<le> 65000)"

text \<open>The arguments are the ports after \<open>to_i\<close>; \<open>now\<close> is the time of the call.\<close>

definition initialize :: "int \<Rightarrow> int \<Rightarrow> int \<Rightarrow> c_error + ruby_server" where
  "initialize now pub request =
     (if validate_port_range pub \<and> validate_port_range request
      then Inr \<lparr>iv_pub_port = pub, iv_request_port = request, iv_stop_profiler_thread = False,
             iv_server_running = False, iv_enable_gc_stats = False,
             iv_clock_type = Rb_symbol ''cpu'', iv_cpu_profiling_mode = Rb_symbol ''sampling'',
             iv_cpu_sampling_interval_usec = Rb_int 1000,
             iv_gc_stats_timer = \<lparr>timer_interval = 5, last_fired_at = now\<rparr>,
             iv_message_dispatch_timer = \<lparr>timer_interval = 1, last_fired_at = now\<rparr>\<rparr>
      else Inl ArgumentError)"

text \<open>The new server object has no callbacks.\<close>

definition new_app :: "ruby_server \<Rightarrow> server \<Rightarrow> app" where
  "new_app i s = \<lparr>inst = i, native = s\<lparr>publish_callback := False, respond_callback := False\<rparr>,
     dispatchers = []\<rparr>"

definition sampling :: ruby_value where
  "sampling = Rb_symbol ''sampling''"

definition start_cpu_profiling ::
  "ruby_value \<Rightarrow> ruby_value \<Rightarrow> ruby_value \<Rightarrow> app \<Rightarrow> c_error + unit completion \<times> app" where
  "start_cpu_profiling mode clock interval a =
     (let a = set_inst (\<lambda>i. i\<lparr>iv_cpu_profiling_mode := mode\<rparr>) a
      in if mode = sampling
         then native_call (start_sampling_profiler (symbol_name clock) (integer_of interval)) a
         else Inr (Returned (), a))"

definition stop_cpu_profiling :: "app \<Rightarrow> c_error + unit completion \<times> app" where
  "stop_cpu_profiling a =
     (if iv_cpu_profiling_mode (inst a) = sampling then native_call stop_sampling_profiler a
      else Inr (Returned (), a))"

record start_options =
  enable_object_trace :: bool
  opt_enable_gc_stats :: bool
  enable_cpu_profiling :: bool
  opt_clock_type :: ruby_value
  opt_cpu_profiling_mode :: ruby_value
  opt_cpu_sampling_interval_usec :: ruby_value

text \<open>\<open>@x = x if x\<close>.\<close>

definition given :: "ruby_value \<Rightarrow> ruby_value \<Rightarrow> ruby_value" where
  "given v old = (if truthy v then v else old)"

definition bind_server :: "zmq_results \<Rightarrow> app \<Rightarrow> c_error + bool \<times> app" where
  "bind_server z a =
     and_then (start_stat_server z (Some (iv_pub_port (inst a))) (Some (iv_request_port (inst a))) (native a))
       (\<lambda>(ok, s). Inr (ok, a\<lparr>native := s\<rparr>))"

definition start_options_of :: "start_options \<Rightarrow> ruby_server \<Rightarrow> ruby_server" where
  "start_options_of opts i =
     i\<lparr>iv_cpu_profiling_mode := given (opt_cpu_profiling_mode opts) (iv_cpu_profiling_mode i),
       iv_clock_type := given (opt_clock_type opts) (iv_clock_type i),
       iv_cpu_sampling_interval_usec :=
         given (opt_cpu_sampling_interval_usec opts) (iv_cpu_sampling_interval_usec i)\<rparr>"

text \<open>The result is whether the server object is returned, and not false.\<close>

definition start :: "zmq_results \<Rightarrow> start_options \<Rightarrow> app \<Rightarrow> c_error + bool completion \<times> app" where
  "start z opts a =
     (if iv_server_running (inst a) then Inr (Returned False, a)
      else and_then (bind_server z a) (\<lambda>(ok, a).
        if \<not> ok then Inr (Returned False, a)
        else ruby_then (if enable_object_trace opts then native_call start_stat_tracing a
                        else Inr (Returned (), a)) (\<lambda>_ a.
             let a = set_inst (start_options_of opts) a
             in ruby_then
                  (if enable_cpu_profiling opts
                   then start_cpu_profiling sampling (iv_clock_type (inst a))
                          (iv_cpu_sampling_interval_usec (inst a)) a
                   else Inr (Returned (), a)) (\<lambda>_ a.
                Inr (Returned True,
                  (set_inst (\<lambda>i. i\<lparr>iv_enable_gc_stats := opt_enable_gc_stats opts,
                                    iv_server_running := True\<rparr>) a)
                    \<lparr>dispatchers := dispatchers a @ [At_top]\<rparr>)))))"

definition stop :: "app \<Rightarrow> c_error + bool completion \<times> app" where
  "stop a =
     (if \<not> iv_server_running (inst a) then Inr (Returned False, a)
      else ruby_then (stop_cpu_profiling (set_inst (\<lambda>i. i\<lparr>iv_stop_profiler_thread := True\<rparr>) a)) (\<lambda>_ a.
           ruby_then (native_call stop_stat_server a) (\<lambda>_ a.
           Inr (Returned True, set_inst (\<lambda>i. i\<lparr>iv_server_running := False\<rparr>) a))))"

section \<open>The dispatch thread\<close>

text \<open>
  What a step of the thread meets: what the poll reports and receives, the collector's
  events when a GC is asked for, the heap a snapshot walks over, the answers of the
  process for the status, what \<open>RbkitGC.stat\<close> returns as a hash or raises (\<open>gc_stat\<close>), the
  Ruby code of the respond callback, and the clock before and after a timer's block.
\<close>

record dispatch_env =
  env_host :: host
  env_revents :: int
  env_frame :: "string option"
  env_gc :: "(host \<times> vm_event) list"
  env_heap :: ruby_heap
  env_process :: ruby_process
  env_to_s :: "ruby_value \<Rightarrow> string"
  env_stats :: "c_error + rb_hash"
  env_during :: ruby_code
  env_now :: int
  env_later :: int

definition timer_due :: "int \<Rightarrow> ruby_timer \<Rightarrow> bool" where
  "timer_due now t \<longleftrightarrow> now - last_fired_at t > timer_interval t * 1000000000"

definition value_to_s :: "dispatch_env \<Rightarrow> ruby_value \<Rightarrow> string" where
  "value_to_s e v = (case v of Rb_symbol n \<Rightarrow> n | _ \<Rightarrow> env_to_s e v)"

text \<open>The process as the status sees it, with the instance variables of the server.\<close>

definition status_process :: "dispatch_env \<Rightarrow> ruby_server \<Rightarrow> ruby_process" where
  "status_process e i = (env_process e)\<lparr>ivar_clock_type := value_to_s e (iv_clock_type i),
     ivar_cpu_profiling_mode := value_to_s e (iv_cpu_profiling_mode i)\<rparr>"

text \<open>The requests the thread knows.\<close>

definition commands :: "string list" where
  "commands = [''start_memory_profile'', ''stop_memory_profile'', ''trigger_gc'', ''objectspace_snapshot'',
      ''handshake'', ''use_cpu_time'', ''use_wall_time'', ''start_cpu_profiling'', ''stop_cpu_profiling'']"
definition process_command :: "dispatch_env \<Rightarrow> string \<Rightarrow> app \<Rightarrow> c_error + unit completion \<times> app" where
  "process_command e cmd a =
     (if cmd = ''start_memory_profile''
      then ruby_then (native_call start_stat_tracing a) (\<lambda>_ a.
             Inr (Returned (), set_inst (\<lambda>i. i\<lparr>iv_enable_gc_stats := True\<rparr>) a))
      else if cmd = ''stop_memory_profile''
      then ruby_then (native_call stop_stat_tracing a) (\<lambda>_ a.
             Inr (Returned (), set_inst (\<lambda>i. i\<lparr>iv_enable_gc_stats := False\<rparr>) a))
      else if cmd = ''trigger_gc'' then native_call (fire_all (env_gc e)) a
      else if cmd = ''objectspace_snapshot''
      then native_call (send_objectspace_dump (env_host e) (map snd (env_heap e))) a
      else if cmd = ''handshake''
      then native_reply (send_handshake_response (env_host e) (status_process e (inst a)) (env_during e)) a
      else if cmd = ''use_cpu_time''
      then Inr (Returned (), set_inst (\<lambda>i. i\<lparr>iv_clock_type := Rb_symbol ''cpu''\<rparr>) a)
      else if cmd = ''use_wall_time''
      then Inr (Returned (), set_inst (\<lambda>i. i\<lparr>iv_clock_type := Rb_symbol ''wall''\<rparr>) a)
      else if cmd = ''start_cpu_profiling''
      then start_cpu_profiling sampling (iv_clock_type (inst a)) (iv_cpu_sampling_interval_usec (inst a)) a
      else if cmd = ''stop_cpu_profiling'' then stop_cpu_profiling a
      else Inr (Returned (), a))"

text \<open>An exception ends the thread.\<close>

definition go_on :: "dispatch_pc \<Rightarrow> c_error + unit completion \<times> app \<Rightarrow> c_error + dispatch_pc \<times> app" where
  "go_on pc r = and_then r (\<lambda>(x, a). Inr (case x of Returned _ \<Rightarrow> pc | Raised _ \<Rightarrow> Finished, a))"

definition gc_stats_block :: "dispatch_env \<Rightarrow> app \<Rightarrow> c_error + unit completion \<times> app" where
  "gc_stats_block e = native_call (\<lambda>s.
     and_then (env_stats e) (\<lambda>data.
     and_then (send_hash_as_event (env_host e) data (Some (uint (event_code gc_stats))) s) (\<lambda>(_, s). Inr s)))"

fun dispatch_step :: "dispatch_env \<Rightarrow> dispatch_pc \<Rightarrow> app \<Rightarrow> c_error + dispatch_pc \<times> app" where
  "dispatch_step e At_top a =
     Inr (if iv_stop_profiler_thread (inst a) then Finished
          else if iv_request_port (inst a) = 0 then At_gc_timer else At_poll, a)"
| "dispatch_step e At_poll a =
     and_then (poll_for_request (env_revents e) (env_frame e) (native a)) (\<lambda>(request, s).
     Inr (case request of
            None \<Rightarrow> At_gc_timer
          | Some cmd \<Rightarrow> if cmd = '''' then At_gc_timer else At_request cmd, a\<lparr>native := s\<rparr>))"
| "dispatch_step e (At_request cmd) a =
     Inr (if iv_server_running (inst a) then At_command cmd else At_gc_timer, a)"
| "dispatch_step e (At_command cmd) a =
     go_on (if cmd = ''handshake'' then At_gc_timer else At_ack) (process_command e cmd a)"
| "dispatch_step e At_ack a = go_on At_gc_timer (native_reply (send_command_ack (env_during e)) a)"
| "dispatch_step e At_gc_timer a =
     (if iv_enable_gc_stats (inst a) \<and> timer_due (env_now e) (iv_gc_stats_timer (inst a))
      then go_on At_dispatch_timer (ruby_then (gc_stats_block e a) (\<lambda>_ a. Inr (Returned (),
             set_inst (\<lambda>i. i\<lparr>iv_gc_stats_timer := (iv_gc_stats_timer i)\<lparr>last_fired_at := env_later e\<rparr>\<rparr>) a)))
      else Inr (At_dispatch_timer, a))"
| "dispatch_step e At_dispatch_timer a =
     (if timer_due (env_now e) (iv_message_dispatch_timer (inst a))
      then Inr (At_top, set_inst (\<lambda>i. i\<lparr>iv_message_dispatch_timer :=
               (iv_message_dispatch_timer i)\<lparr>last_fired_at := env_later e\<rparr>\<rparr>)
             (a\<lparr>native := send_messages (env_host e) (native a)\<rparr>))
      else Inr (At_top, a))"
| "dispatch_step e Finished a = Inr (Finished, a)"

text \<open>A step of the \<open>i\<close>th thread.\<close>

definition dispatch :: "nat \<Rightarrow> dispatch_env \<Rightarrow> app \<Rightarrow> c_error + app" where
  "dispatch i e a =
     and_then (dispatch_step e (dispatchers a ! i) a) (\<lambda>(pc, a).
     Inr (a\<lparr>dispatchers := (dispatchers a)[i := pc]\<rparr>))"

text \<open>A pass of the loop, undisturbed: to the next top of the loop or the end of the thread.\<close>

fun dispatch_pass :: "nat \<Rightarrow> dispatch_env \<Rightarrow> dispatch_pc \<Rightarrow> app \<Rightarrow> c_error + dispatch_pc \<times> app" where
  "dispatch_pass 0 e pc a = Inr (pc, a)"
| "dispatch_pass (Suc n) e pc a =
     and_then (dispatch_step e pc a) (\<lambda>(pc, a).
     if pc = At_top \<or> pc = Finished then Inr (pc, a) else dispatch_pass n e pc a)"

text \<open>Each step leads on towards the top, so seven are enough for a pass.\<close>

fun pc_rank :: "dispatch_pc \<Rightarrow> nat" where
  "pc_rank At_top = 7"
| "pc_rank At_poll = 6"
| "pc_rank (At_request cmd) = 5"
| "pc_rank (At_command cmd) = 4"
| "pc_rank At_ack = 3"
| "pc_rank At_gc_timer = 2"
| "pc_rank At_dispatch_timer = 1"
| "pc_rank Finished = 1"

lemma go_on_pc: "go_on pc r = Inr (pc', a') \<Longrightarrow> pc' = pc \<or> pc' = Finished"
proof -
  assume "go_on pc r = Inr (pc', a')"
  then obtain x where "pc' = (case x of Returned (u :: unit) \<Rightarrow> pc | Raised e \<Rightarrow> Finished)"
    by (auto simp: go_on_def and_then_eq_Inr)
  then show ?thesis by (cases x) simp_all
qed

lemma dispatch_step_rank:
  assumes s: "dispatch_step e pc a = Inr (pc', a')"
  shows "pc' = At_top \<or> pc' = Finished \<or> pc_rank pc' < pc_rank pc"
proof (cases pc)
  case At_poll
  with s obtain request t where "pc' = (case request of None \<Rightarrow> At_gc_timer
      | Some cmd \<Rightarrow> if cmd = '''' then At_gc_timer else At_request cmd)"
    by (auto simp: and_then_eq_Inr)
  with At_poll show ?thesis by (cases request) simp_all
next
  case (At_command cmd)
  with s go_on_pc [of "if cmd = ''handshake'' then At_gc_timer else At_ack" "process_command e cmd a"]
  show ?thesis by (cases "cmd = ''handshake''") auto
next
  case At_ack
  with s have "go_on At_gc_timer (native_reply (send_command_ack (env_during e)) a) = Inr (pc', a')" by simp
  from go_on_pc [OF this] At_ack show ?thesis by auto
next
  case At_gc_timer
  show ?thesis
  proof (cases "iv_enable_gc_stats (inst a) \<and> timer_due (env_now e) (iv_gc_stats_timer (inst a))")
    case True
    with s At_gc_timer obtain r where "go_on At_dispatch_timer r = Inr (pc', a')" by auto
    from go_on_pc [OF this] At_gc_timer show ?thesis by auto
  next
    case False
    with s At_gc_timer show ?thesis by auto
  qed
qed (use s in \<open>auto split: if_splits\<close>)

lemma dispatch_pass_ends:
  "pc_rank pc \<le> n \<Longrightarrow> dispatch_pass n e pc a = Inr (pc', a') \<Longrightarrow> pc' = At_top \<or> pc' = Finished"
proof (induction n arbitrary: pc a)
  case 0
  then show ?case by (cases pc) simp_all
next
  case (Suc n)
  from Suc.prems(2) obtain pc1 a1 where
    "dispatch_step e pc a = Inr (pc1, a1)"
    "(if pc1 = At_top \<or> pc1 = Finished then Inr (pc1, a1) else dispatch_pass n e pc1 a1) = Inr (pc', a')"
    by (auto simp: and_then_eq_Inr)
  with dispatch_step_rank [of e pc a pc1 a1] Suc.prems(1) Suc.IH [of pc1 a1] show ?case
    by (auto split: if_splits)
qed

section \<open>The module\<close>

text \<open>The class variable \<open>@server\<close> of \<open>Rbkit\<close>; \<open>None\<close> is nil.\<close>

record rbkit_module =
  module_server :: "ruby_server option"
  module_native :: server

text \<open>\<open>@server ||= Rbkit::Server.new(...)\<close>, then \<open>@server.start\<close>. A start spawns its own thread.\<close>

definition start_module ::
  "int \<Rightarrow> zmq_results \<Rightarrow> start_options \<Rightarrow> int \<Rightarrow> int \<Rightarrow> rbkit_module
     \<Rightarrow> c_error + bool completion \<times> rbkit_module" where
  "start_module now z opts pub request m =
     (case (case module_server m of
              Some i \<Rightarrow> Inr \<lparr>inst = i, native = module_native m, dispatchers = []\<rparr>
            | None \<Rightarrow> and_then (initialize now pub request) (\<lambda>i. Inr (new_app i (module_native m)))) of
        Inl e \<Rightarrow> Inr (Raised (Some e), m)
      | Inr a \<Rightarrow> and_then (start z opts a) (\<lambda>(x, a).
          Inr (x, \<lparr>module_server = Some (inst a), module_native = native a\<rparr>)))"

definition stop_server :: "rbkit_module \<Rightarrow> c_error + bool completion \<times> rbkit_module" where
  "stop_server m =
     (case module_server m of
        None \<Rightarrow> Inr (Returned False, m)
      | Some i \<Rightarrow> and_then (stop \<lparr>inst = i, native = module_native m, dispatchers = []\<rparr>) (\<lambda>(x, a).
          Inr (x, \<lparr>module_server = (if x = Returned True then None else Some (inst a)),
                   module_native = native a\<rparr>)))"

text \<open>The options \<open>start\<close> has by default, and those \<open>start_profiling\<close> passes on by default.\<close>

definition no_options :: start_options where
  "no_options = \<lparr>enable_object_trace = False, opt_enable_gc_stats = False, enable_cpu_profiling = False,
     opt_clock_type = Rb_nil, opt_cpu_profiling_mode = Rb_nil, opt_cpu_sampling_interval_usec = Rb_nil\<rparr>"

definition profiling_options :: start_options where
  "profiling_options = \<lparr>enable_object_trace = True, opt_enable_gc_stats = True, enable_cpu_profiling = True,
     opt_clock_type = Rb_symbol ''wall'', opt_cpu_profiling_mode = Rb_nil,
     opt_cpu_sampling_interval_usec = Rb_int 1000\<rparr>"

definition start_server ::
  "int \<Rightarrow> zmq_results \<Rightarrow> int \<Rightarrow> int \<Rightarrow> rbkit_module \<Rightarrow> c_error + bool completion \<times> rbkit_module" where
  "start_server now z pub request m = start_module now z no_options pub request m"

text \<open>The option \<open>cpu_profiling_mode\<close> of the method is not handed on.\<close>

definition start_profiling ::
  "int \<Rightarrow> zmq_results \<Rightarrow> start_options \<Rightarrow> int \<Rightarrow> int \<Rightarrow> rbkit_module
     \<Rightarrow> c_error + bool completion \<times> rbkit_module" where
  "start_profiling now z opts pub request m =
     start_module now z (opts\<lparr>opt_cpu_profiling_mode := Rb_nil\<rparr>) pub request m"

end
