(* ===== verification/Ruby_Safety.thy ===== *)
theory Ruby_Safety
  imports Server_Properties Ruby_Server
begin

text \<open>
  The Ruby class and the C server together. What the dispatch thread calls keeps the C
  server in its reachable states and leaves the sockets alone; the application's calls
  and the thread's steps keep the instance variables in line with the C server; and so
  no call can crash the process, but for a start whose ports overflow the endpoint buffers,
  as long as the application calls while the thread is at the top of its loop and profiles
  in the sampling mode.
\<close>

section \<open>Calls into the C server\<close>

text \<open>Whether a server exists and samples, and everything the outside can see of it.\<close>

definition keeps_mode :: "server \<Rightarrow> server \<Rightarrow> bool" where
  "keeps_mode s s' \<longleftrightarrow> (logger s' = None \<longleftrightarrow> logger s = None) \<and> sampling_on s' = sampling_on s"

definition io_view where
  "io_view s = (zmq_log s, zmq_response_socket s, responded s, server_instance s, respond_callback s)"

lemma keeps_mode_refl [simp]: "keeps_mode s s"
  by (simp add: keeps_mode_def)

lemma keeps_mode_trans: "keeps_mode s s' \<Longrightarrow> keeps_mode s' s'' \<Longrightarrow> keeps_mode s s''"
  by (simp add: keeps_mode_def)

lemma keeps_mode_running:
  "running enc vs l s \<Longrightarrow> running enc vs' l' s' \<Longrightarrow>
   lg_sampling_profiler_enabled l' = lg_sampling_profiler_enabled l \<Longrightarrow> keeps_mode s s'"
  by (simp add: keeps_mode_def sampling_on_def running_def)

lemma keeps_mode_logger: "logger s' = logger s \<Longrightarrow> keeps_mode s s'"
  by (simp add: keeps_mode_def sampling_on_def)

lemma fire_ok:
  assumes "reachable enc s" and room: "vm_room enc h ev s"
  shows "\<exists>s'. fire h ev s = Inr s' \<and> reachable enc s' \<and> keeps_mode s s' \<and> io_view s' = io_view s"
proof -
  have "\<exists>s'. fire h ev s = Inr s' \<and> keeps_mode s s' \<and> io_view s' = io_view s"
    using reachable_sound [OF assms(1)]
  proof (cases rule: sound_cases)
    case 1
    then show ?thesis by (simp add: fire_off)
  next
    case (2 vs l)
    show ?thesis
    proof (cases "lg_enabled l")
      case False
      with fire_running [OF 2(1)] room show ?thesis by (simp add: vm_room_def)
    next
      case True
      from room running_logger [OF 2(1)] have pre: "host_enc h = enc" "vm_ok h ev"
        "card (dom (lg_object_table l)) < 2 ^ 62"
        "queued_bytes s + length (emit enc (vm_calls h ev)) \<le> 2 ^ 63" by (auto simp: vm_room_def)
      from fire_step [OF 2(1) True pre] obtain s' l' where
        s': "fire h ev s = Inr s'" "running enc (vs @ [vm_frame h ev]) l' s'"
          "lg_sampling_profiler_enabled l' = lg_sampling_profiler_enabled l"
        and fr: "s' = s\<lparr>logger := logger s', messages := messages s', jobs := jobs s'\<rparr>" by blast
      have "io_view s' = io_view s" by (subst fr) (simp add: io_view_def)
      with s' keeps_mode_running [OF 2(1) s'(2,3)] show ?thesis by blast
    qed
  qed
  with reach_vm [OF assms] show ?thesis by blast
qed

text \<open>Room for a sequence of events, each where it happens.\<close>

fun fire_room :: "(mp_call \<Rightarrow> byte list) \<Rightarrow> (host \<times> vm_event) list \<Rightarrow> server \<Rightarrow> bool" where
  "fire_room enc [] s = True"
| "fire_room enc ((h, ev) # es) s \<longleftrightarrow>
     vm_room enc h ev s \<and> (case fire h ev s of Inl e \<Rightarrow> False | Inr s' \<Rightarrow> fire_room enc es s')"

lemma fire_all_ok:
  "reachable enc s \<Longrightarrow> fire_room enc es s \<Longrightarrow>
   \<exists>s'. fire_all es s = Inr s' \<and> reachable enc s' \<and> keeps_mode s s' \<and> io_view s' = io_view s"
proof (induction es arbitrary: s)
  case (Cons e es)
  obtain h ev where e: "e = (h, ev)" by fastforce
  from fire_ok [of enc s h ev] Cons.prems e obtain s1 where s1: "fire h ev s = Inr s1"
    "reachable enc s1" "keeps_mode s s1" "io_view s1 = io_view s" by auto
  with Cons.prems(2) e Cons.IH [OF s1(2)] show ?case by (auto intro: keeps_mode_trans)
qed simp

lemma trace_on_ok:
  assumes "reachable enc s" and "logger s \<noteq> None"
  shows "\<exists>s'. start_stat_tracing s = Inr s' \<and> reachable enc s' \<and> keeps_mode s s' \<and> io_view s' = io_view s"
proof -
  from assms obtain vs l where r: "running enc vs l s" by (rule reachable_running)
  from start_stat_tracing_running [OF r] obtain s' where
    s': "start_stat_tracing s = Inr s'" "running enc vs (l\<lparr>lg_enabled := True\<rparr>) s'"
    and fr: "s' = s\<lparr>tracepoints := tracepoints s', logger := logger s'\<rparr>" by blast
  have "io_view s' = io_view s" by (subst fr) (simp add: io_view_def)
  with s' reach_trace_on [OF assms(1) s'(1)] keeps_mode_running [OF r s'(2)] show ?thesis by simp
qed

lemma trace_off_ok:
  assumes "reachable enc s" and "logger s \<noteq> None"
  shows "\<exists>s'. stop_stat_tracing s = Inr s' \<and> reachable enc s' \<and> keeps_mode s s' \<and> io_view s' = io_view s"
proof -
  from assms obtain vs l where r: "running enc vs l s" by (rule reachable_running)
  from stop_stat_tracing_running [OF r] obtain s' where
    s': "stop_stat_tracing s = Inr s'" "running enc vs (l\<lparr>lg_enabled := False\<rparr>) s'"
    and fr: "s' = s\<lparr>tracepoints := tracepoints s', logger := logger s'\<rparr>" by blast
  have "io_view s' = io_view s" by (subst fr) (simp add: io_view_def)
  with s' reach_trace_off [OF assms(1) s'(1)] keeps_mode_running [OF r s'(2)] show ?thesis by simp
qed

lemma dump_ok:
  assumes "reachable enc s" and "logger s \<noteq> None" and room: "dump_room enc h hp s"
  shows "\<exists>s'. send_objectspace_dump h (map snd hp) s = Inr s' \<and> reachable enc s'
    \<and> keeps_mode s s' \<and> io_view s' = io_view s"
proof -
  from assms(1,2) obtain vs l where r: "running enc vs l s" by (rule reachable_running)
  let ?recs = "map (object_data_of (host_vm h) (lg_object_table l)) (live_objects (host_vm h) hp)"
  from send_objectspace_dump_running [OF r, of h hp ?recs] room running_logger [OF r]
  obtain s' vs' where s': "send_objectspace_dump h (map snd hp) s = Inr s'" "running enc vs' l s'"
    and fr: "s' = s\<lparr>correlation_id := correlation_id s + 1, messages := messages s', jobs := jobs s'\<rparr>"
    by (auto simp: dump_room_def)
  have "io_view s' = io_view s" by (subst fr) (simp add: io_view_def)
  with s' reach_dump [OF assms(1,3) s'(1)] keeps_mode_running [OF r s'(2)] show ?thesis by blast
qed

text \<open>A hash with an event type that carries one.\<close>

lemma hash_ok_sent:
  assumes "reachable enc s" and room: "hash_room enc h hash s" and t: "FIX2INT (Some t) = Inr t'" "t' \<in> {6, 8}"
  shows "\<exists>x s'. send_hash_as_event h hash (Some t) s = Inr (x, s') \<and> reachable enc s'
    \<and> keeps_mode s s' \<and> io_view s' = io_view s"
proof (cases "logger s")
  case None
  with assms(1) show ?thesis by (simp add: send_hash_as_event_def)
next
  case (Some l0)
  with assms(1) obtain vs l where r: "running enc vs l s" by (auto elim: reachable_running)
  from room have e: "host_enc h = enc" and ok: "event_ok (lg_str_table l) (Hash_event t' hash)"
    using t(2) by (auto simp: hash_room_def hash_ok_def)
  have st: "strings_of s = lg_str_table l" using running_logger [OF r] by (simp add: strings_of_def)
  from pack_event_calls [OF ok, of "host_clock h"] obtain cs ev' where
    p: "\<And>enc counter. pack_event enc (host_clock h) (lg_str_table l) counter (Hash_event t' hash)
          = Inr (emit enc cs, ev', counter)" by blast
  then have "pack_event enc (host_clock h) (strings_of s) (message_counter s) (new_rbkit_hash_event t' hash)
      = Inr (emit enc cs, ev', message_counter s)" by (simp add: new_rbkit_hash_event_def st)
  with room have "queued_bytes s + length (emit enc cs) \<le> 2 ^ 63"
    unfolding hash_room_def by blast
  then have "queued_bytes s + event_bytes h (Hash_event t' hash) s \<le> 2 ^ 63"
    by (simp add: event_bytes_def packed_def p st e)
  from queue_event_running [OF r e ok this] obtain buf ev' vs' s' where
    s': "pack_fresh h (Hash_event t' hash) s = Inr (buf, ev', s)" "send_message h buf s = Inr s'"
      "running enc vs' l s'"
    and fr: "s' = s\<lparr>messages := messages s', jobs := jobs s'\<rparr>" by blast
  have "io_view s' = io_view s" by (subst fr) (simp add: io_view_def)
  moreover have res: "send_hash_as_event h hash (Some t) s = Inr (None, s')"
    using s'(1,2) Some t(1) by (simp add: send_hash_as_event_def new_rbkit_hash_event_def)
  ultimately show ?thesis
    using reach_hash [OF assms(1,2) res] keeps_mode_running [OF r s'(3)] by blast
qed

lemma profile_on_ok:
  assumes "reachable enc s" and "logger s \<noteq> None" and i: "FIX2INT interval = Inr usec"
  shows "\<exists>s'. start_sampling_profiler (Some clock) interval s = Inr s' \<and> reachable enc s'
    \<and> logger s' \<noteq> None \<and> sampling_on s' \<and> io_view s' = io_view s"
proof -
  from assms(2) obtain l where l: "logger s = Some l" by auto
  obtain s' where s': "start_sampling_profiler (Some clock) interval s = Inr s'"
    "logger s' \<noteq> None \<and> sampling_on s' \<and> io_view s' = io_view s"
    using l i by (cases "lg_sampling_profiler_enabled l")
      (simp_all add: start_sampling_profiler_def the_logger_def sampling_on_def set_sampling_def io_view_def)
  with reach_profile_on [OF assms(1) s'(1)] show ?thesis by blast
qed

lemma profile_off_ok:
  assumes "reachable enc s" and "logger s \<noteq> None"
  shows "\<exists>s'. stop_sampling_profiler s = Inr s' \<and> reachable enc s'
    \<and> logger s' \<noteq> None \<and> \<not> sampling_on s' \<and> io_view s' = io_view s"
proof -
  from assms(2) obtain l where l: "logger s = Some l" by auto
  obtain s' where s': "stop_sampling_profiler s = Inr s'"
    "logger s' \<noteq> None \<and> \<not> sampling_on s' \<and> io_view s' = io_view s"
    using l by (cases "lg_sampling_profiler_enabled l")
      (simp_all add: stop_sampling_profiler_def the_logger_def sampling_on_def set_sampling_def io_view_def)
  with reach_profile_off [OF assms(1) s'(1)] show ?thesis by blast
qed

lemma stop_ok:
  assumes "reachable enc s" and "logger s \<noteq> None" and "\<not> sampling_on s"
  shows "\<exists>s'. stop_stat_server s = Inr s' \<and> reachable enc s' \<and> logger s' = None"
proof -
  from assms(1,2) obtain vs l where r: "running enc vs l s" by (rule reachable_running)
  from stop_stat_server_running [OF r] obtain s' where s': "stop_stat_server s = Inr s'" "stopped s'"
    by blast
  moreover have "\<not> lg_sampling_profiler_enabled l"
    using assms(3) running_logger [OF r] by (simp add: sampling_on_def)
  ultimately show ?thesis
    using reach_stop [OF assms(1) running_logger [OF r]] by (auto simp: stopped_def)
qed

text \<open>A message on the response socket, then the callback, which may raise.\<close>

definition reply_log :: "sbuffer \<Rightarrow> server \<Rightarrow> zmq_call list" where
  "reply_log buf s = (case zmq_response_socket s of None \<Rightarrow> [] | Some k \<Rightarrow> [Zmq_send k buf])"

lemma respond_ok:
  assumes "reachable enc s"
  shows "\<exists>x s'. respond_with_message (only_raises b) buf s = Inr (x, s') \<and> reachable enc s'
    \<and> keeps_mode s s' \<and> zmq_log s' = zmq_log s @ reply_log buf s
    \<and> zmq_response_socket s' = zmq_response_socket s"
proof -
  obtain x s' where s': "respond_with_message (only_raises b) buf s = Inr (x, s')"
    "zmq_log s' = zmq_log s @ reply_log buf s \<and> zmq_response_socket s' = zmq_response_socket s"
    by (cases "zmq_response_socket s"; cases "server_instance s \<and> respond_callback s")
      (auto simp: respond_with_message_def only_raises_def log_zmq_def reply_log_def Let_def)
  with reach_respond [OF assms s'(1)] respond_frame [OF s'(1)] keeps_mode_logger show ?thesis by blast
qed

lemma handshake_packed:
  assumes "hash_ok (rbkit_status_as_hash p s)"
  shows "\<exists>bytes. send_handshake_response h p during s
      = (if 0 < length bytes then respond_with_message during bytes s else Inr (False, s))"
proof -
  let ?hash = "rbkit_status_as_hash p s" and ?t = "event_code handshake"
  from packs_hash [of ?hash "host_clock h" ?t "strings_of s"] assms obtain cs where
    "pack_hash_event (host_clock h) ?t ?hash = Inr cs" by (auto simp: hash_ok_def)
  then have "pack_fresh h (new_rbkit_hash_event ?t ?hash) s
      = Inr (emit (host_enc h) cs, new_rbkit_hash_event ?t ?hash, s)"
    by (simp add: pack_fresh_def pack_event_def new_rbkit_hash_event_def Let_def)
  then show ?thesis by (auto simp: send_handshake_response_def simp del: event_code.simps)
qed

lemma handshake_ok:
  assumes "reachable enc s" and "hash_ok (rbkit_status_as_hash p s)"
  shows "\<exists>x s'. send_handshake_response h p (only_raises b) s = Inr (x, s') \<and> reachable enc s'
    \<and> keeps_mode s s'"
proof -
  from handshake_packed [OF assms(2)] obtain bytes where
    b: "send_handshake_response h p (only_raises b) s
      = (if 0 < length bytes then respond_with_message (only_raises b) bytes s else Inr (False, s))" by blast
  from respond_ok [OF assms(1), of b bytes] assms(1) show ?thesis unfolding b by fastforce
qed

lemma poll_ok:
  assumes "reachable enc s" and "revents \<noteq> 0 \<longrightarrow> frame \<noteq> None"
  shows "\<exists>request s'. poll_for_request revents frame s = Inr (request, s') \<and> reachable enc s'
    \<and> keeps_mode s s' \<and> zmq_response_socket s' = zmq_response_socket s
    \<and> (case request of
         None \<Rightarrow> revents = 0 \<and> s' = s
       | Some cmd \<Rightarrow> frame \<noteq> None \<and> cmd = c_str (the frame @ [CHR 0x00])
           \<and> zmq_log s' = zmq_log s @ [Zmq_msg_recv (zmq_response_socket s)])"
proof -
  obtain request s' where s': "poll_for_request revents frame s = Inr (request, s')"
    "zmq_response_socket s' = zmq_response_socket s"
    "case request of
         None \<Rightarrow> revents = 0 \<and> s' = s
       | Some cmd \<Rightarrow> frame \<noteq> None \<and> cmd = c_str (the frame @ [CHR 0x00])
           \<and> zmq_log s' = zmq_log s @ [Zmq_msg_recv (zmq_response_socket s)]"
    using assms(2) by (cases "revents = 0"; cases frame)
      (simp_all add: poll_for_request_def tracer_string_recv_def log_zmq_def)
  with reach_poll [OF assms(1) s'(1)] poll_frame [OF s'(1)] keeps_mode_logger show ?thesis by blast
qed

section \<open>What goes on without the Ruby class\<close>

text \<open>
  The VM's events, the kernel's timers, the postponed jobs, the callbacks the application
  sets, and the functions for tests.
\<close>

inductive background :: "(mp_call \<Rightarrow> byte list) \<Rightarrow> server \<Rightarrow> server \<Rightarrow> bool" for enc where
  bg_vm: "vm_room enc h ev s \<Longrightarrow> fire h ev s = Inr s' \<Longrightarrow> background enc s s'"
| bg_timer: "background enc s (timer_expires h w s)"
| bg_publish: "jobs s = Publish_job # js \<Longrightarrow> run_job h frames tid (only_raises b) s = Inr s' \<Longrightarrow>
    background enc s s'"
| bg_sample: "jobs s = Sampling_job # js \<Longrightarrow>
    (\<And>smp. sampling_job_sample frames tid = Inr smp \<Longrightarrow> sample_room enc h smp s) \<Longrightarrow>
    run_job h frames tid during s = Inr s' \<Longrightarrow> background enc s s'"
| bg_callback: "background enc s (s\<lparr>publish_callback := b, respond_callback := b'\<rparr>)"
| bg_take: "get_queued_messages h (only_raises b) s = Inr (r, s') \<Longrightarrow> background enc s s'"
| bg_test_on: "background enc s (enable_test_mode s)"
| bg_test_off: "background enc s (disable_test_mode s)"

lemma background_reachable:
  assumes "background enc s s'" and r: "reachable enc s"
  shows "reachable enc s'"
  using assms(1)
proof cases
  case bg_vm
  from reach_vm [OF r this] show ?thesis .
next
  case bg_publish
  from reach_publish [OF r this] show ?thesis .
next
  case (bg_sample js frames tid h during)
  from reach_sample [OF r bg_sample] show ?thesis .
next
  case bg_take
  from reach_take [OF r this] show ?thesis .
qed (use r in \<open>simp_all add: reach_timer reach_callback reach_test_on reach_test_off\<close>)

lemma send_message_logger: "send_message h buf s = Inr s' \<Longrightarrow> logger s' = logger s"
  by (auto simp: send_message_def and_then_eq_Inr Let_def rbkit_frame)

lemma background_mode:
  assumes "background enc s s'" and r: "reachable enc s"
  shows "keeps_mode s s'"
  using assms(1)
proof cases
  case (bg_vm h ev)
  with fire_ok [OF r bg_vm(1)] show ?thesis by auto
next
  case (bg_timer h w)
  then show ?thesis by (simp add: keeps_mode_logger rbkit_frame)
next
  case (bg_publish js h frames tid b)
  then have "trigger_publish_callback h (only_raises b) (s\<lparr>jobs := js\<rparr>) = Inr s'"
    by (simp add: run_job_def Let_def)
  from trigger_publish_frame [OF this] show ?thesis by (simp add: keeps_mode_logger)
next
  case (bg_sample js frames tid h during)
  let ?s = "s\<lparr>jobs := js\<rparr>"
  from bg_sample have res: "sampling_job_handler h frames tid ?s = Inr s'"
    by (simp add: run_job_def Let_def)
  then obtain smp buf ev' s1 where "pack_fresh h (new_rbkit_cpu_sample_event smp) ?s = Inr (buf, ev', s1)"
    and s1: "send_message h buf s1 = Inr s'"
    by (auto simp: sampling_job_handler_def queue_cpu_sample_for_sending_def and_then_eq_Inr split: if_splits)
  then have "logger s1 = logger ?s" by (auto simp: pack_fresh_def and_then_eq_Inr)
  with send_message_logger [OF s1] have "logger s' = logger s" by simp
  then show ?thesis by (simp add: keeps_mode_logger)
next
  case (bg_take h b r)
  from get_queued_frame [OF bg_take] show ?thesis by (simp add: keeps_mode_logger)
qed (simp_all add: keeps_mode_logger enable_test_mode_def disable_test_mode_def)

section \<open>The application and the dispatch thread\<close>

text \<open>Options that cannot make \<open>start\<close> raise.\<close>

definition clock_ok :: "ruby_value \<Rightarrow> bool" where
  "clock_ok v \<longleftrightarrow> symbol_name v \<noteq> None"

definition interval_ok :: "ruby_value \<Rightarrow> bool" where
  "interval_ok v \<longleftrightarrow> returns (FIX2INT (integer_of v))"

definition options_ok :: "start_options \<Rightarrow> bool" where
  "options_ok opts \<longleftrightarrow> (truthy (opt_clock_type opts) \<longrightarrow> clock_ok (opt_clock_type opts))
     \<and> (truthy (opt_cpu_sampling_interval_usec opts) \<longrightarrow> interval_ok (opt_cpu_sampling_interval_usec opts))"

text \<open>Every dispatch thread is asleep at the top of its loop, or has ended.\<close>

definition calm :: "app \<Rightarrow> bool" where
  "calm a \<longleftrightarrow> list_all (\<lambda>pc. pc = At_top \<or> pc = Finished) (dispatchers a)"

text \<open>
  The ports the class lets through are those of \<open>valid_port\<close>; the ones that overflow the
  endpoint buffers of the C code are among them.
\<close>

lemma validate_port_range_valid: "validate_port_range p = valid_port p"
  by (simp add: validate_port_range_def valid_port_def)

abbreviation overflowing :: "zmq_results \<Rightarrow> ruby_server \<Rightarrow> bool" where
  "overflowing z i \<equiv> long_ports z (iv_pub_port i) (iv_request_port i)"

text \<open>
  What a step relies on: a poll that reports a request receives one, the room for what a
  command queues, a status whose strings can be packed, a callback that at most raises.
\<close>

fun step_ok :: "(mp_call \<Rightarrow> byte list) \<Rightarrow> dispatch_env \<Rightarrow> dispatch_pc \<Rightarrow> app \<Rightarrow> bool" where
  "step_ok enc e At_poll a \<longleftrightarrow> (env_revents e \<noteq> 0 \<longrightarrow> env_frame e \<noteq> None)"
| "step_ok enc e (At_command cmd) a \<longleftrightarrow>
     (cmd = ''trigger_gc'' \<longrightarrow> fire_room enc (env_gc e) (native a))
   \<and> (cmd = ''objectspace_snapshot'' \<longrightarrow> dump_room enc (env_host e) (env_heap e) (native a))
   \<and> (cmd = ''handshake'' \<longrightarrow> hash_ok (rbkit_status_as_hash (status_process e (inst a)) (native a))
        \<and> (\<exists>b. env_during e = only_raises b))"
| "step_ok enc e At_ack a \<longleftrightarrow> (\<exists>b. env_during e = only_raises b)"
| "step_ok enc e At_gc_timer a \<longleftrightarrow>
     (iv_enable_gc_stats (inst a) \<longrightarrow>
        (case env_stats e of Inl err \<Rightarrow> ruby_exception err | Inr data \<Rightarrow> hash_room enc (env_host e) data (native a)))"
| "step_ok enc e pc a \<longleftrightarrow> True"

text \<open>
  The states the two can be in together. An instance is created with any ports its
  constructor accepts, and they are not changed afterwards; the application makes its
  calls while the dispatch threads are calm, starts with options of the right types, and
  profiles in the sampling mode only; the threads take their steps in any order, and
  everything in the background happens at any moment. A start that overflows a buffer
  leads nowhere: it ends the process.
\<close>

inductive app_reachable :: "(mp_call \<Rightarrow> byte list) \<Rightarrow> app \<Rightarrow> bool" for enc where
  app_new: "initialize now p q = Inr i \<Longrightarrow> app_reachable enc (new_app i server_init)"
| app_start: "app_reachable enc a \<Longrightarrow> calm a \<Longrightarrow> options_ok opts \<Longrightarrow> start z opts a = Inr (x, a') \<Longrightarrow>
    app_reachable enc a'"
| app_stop: "app_reachable enc a \<Longrightarrow> calm a \<Longrightarrow> stop a = Inr (x, a') \<Longrightarrow> app_reachable enc a'"
| app_profile_on: "app_reachable enc a \<Longrightarrow> calm a \<Longrightarrow>
    start_cpu_profiling sampling clock interval a = Inr (x, a') \<Longrightarrow> app_reachable enc a'"
| app_profile_off: "app_reachable enc a \<Longrightarrow> calm a \<Longrightarrow> stop_cpu_profiling a = Inr (x, a') \<Longrightarrow>
    app_reachable enc a'"
| app_dispatch: "app_reachable enc a \<Longrightarrow> i < length (dispatchers a) \<Longrightarrow>
    step_ok enc e (dispatchers a ! i) a \<Longrightarrow>
    dispatch i e a = Inr a' \<Longrightarrow> app_reachable enc a'"
| app_background: "app_reachable enc a \<Longrightarrow> background enc (native a) s \<Longrightarrow>
    app_reachable enc (a\<lparr>native := s\<rparr>)"

text \<open>The instance variables follow the C server.\<close>

definition linked :: "(mp_call \<Rightarrow> byte list) \<Rightarrow> ruby_server \<Rightarrow> server \<Rightarrow> bool" where
  "linked enc i s \<longleftrightarrow> reachable enc s \<and> valid_port (iv_pub_port i) \<and> valid_port (iv_request_port i)
     \<and> clock_ok (iv_clock_type i) \<and> interval_ok (iv_cpu_sampling_interval_usec i)
     \<and> (iv_server_running i \<longleftrightarrow> logger s \<noteq> None)
     \<and> (iv_server_running i \<longrightarrow> iv_pub_port i < 10000 \<and> iv_request_port i < 10000)
     \<and> (sampling_on s \<longrightarrow> iv_cpu_profiling_mode i = sampling)"

text \<open>A thread that is about to run a command has found the server running.\<close>

definition app_ok :: "(mp_call \<Rightarrow> byte list) \<Rightarrow> app \<Rightarrow> bool" where
  "app_ok enc a \<longleftrightarrow> linked enc (inst a) (native a)
     \<and> (\<forall>cmd. At_command cmd \<in> set (dispatchers a) \<longrightarrow> iv_server_running (inst a))"

lemma linked_native:
  "linked enc i s \<Longrightarrow> reachable enc s' \<Longrightarrow> keeps_mode s s' \<Longrightarrow> linked enc i s'"
  by (simp add: linked_def keeps_mode_def)

text \<open>Binding, for an instance that does not run.\<close>

lemma bind_overflows:
  assumes "linked enc (inst a) (native a)" and "\<not> iv_server_running (inst a)" and "overflowing z (inst a)"
  shows "bind_server z a = Inl Out_of_bounds"
proof -
  from assms have "reachable enc (native a)" "logger (native a) = None"
    "valid_port (iv_pub_port (inst a))" "valid_port (iv_request_port (inst a))" by (simp_all add: linked_def)
  with start_overflow [OF reachable_stopped, of enc "native a"] assms(3) show ?thesis
    by (simp add: bind_server_def)
qed

lemma bind_ok:
  assumes "linked enc (inst a) (native a)" and "\<not> iv_server_running (inst a)" and "\<not> overflowing z (inst a)"
  shows "\<exists>ok s. bind_server z a = Inr (ok, a\<lparr>native := s\<rparr>) \<and> reachable enc s \<and> \<not> sampling_on s
    \<and> (logger s \<noteq> None \<longleftrightarrow> ok) \<and> (ok \<longrightarrow> iv_pub_port (inst a) < 10000 \<and> iv_request_port (inst a) < 10000)
    \<and> (binds z \<longrightarrow> ok \<and> zmq_response_socket s = (if iv_request_port (inst a) = 0
          then zmq_response_socket (native a) else Some (new_socket z ZMQ_REP)))"
proof -
  let ?p = "Some (iv_pub_port (inst a))" and ?q = "Some (iv_request_port (inst a))"
  from assms have r: "reachable enc (native a)" "logger (native a) = None"
    and v: "valid_port (iv_pub_port (inst a))" "valid_port (iv_request_port (inst a))"
    by (simp_all add: linked_def)
  note st = reachable_stopped [OF r]
  from start_overflow [OF st v, of z] assms(3) obtain ok s where
    s: "start_stat_server z ?p ?q (native a) = Inr (ok, s)"
      "ok \<longrightarrow> iv_pub_port (inst a) < 10000 \<and> iv_request_port (inst a) < 10000" by auto
  from start_stat_server_result [OF st s(1), of enc] have "\<not> sampling_on s \<and> (logger s \<noteq> None \<longleftrightarrow> ok)"
    by (auto simp: sampling_on_def stopped_def running_def split: if_splits)
  moreover have "ok \<and> zmq_response_socket s = (if iv_request_port (inst a) = 0
          then zmq_response_socket (native a) else Some (new_socket z ZMQ_REP))" if "binds z"
  proof -
    from assms(3) v that have p: "0 \<le> iv_pub_port (inst a)" "iv_pub_port (inst a) < 10000"
      "0 \<le> iv_request_port (inst a)" "iv_request_port (inst a) < 10000"
      by (auto simp: long_ports_def binds_def valid_port_def)
    from start_short [OF st that p] s show ?thesis by auto
  qed
  ultimately show ?thesis using s reach_start [OF r s(1)] by (auto simp: bind_server_def)
qed

lemma native_call_Returned: "f (native a) = Inr s \<Longrightarrow> native_call f a = Inr (Returned (), a\<lparr>native := s\<rparr>)"
  by (simp add: native_call_def)

lemma ruby_then_Returned [simp]: "ruby_then (Inr (Returned v, a)) k = k v a"
  by (simp add: ruby_then_def)

lemma set_inst_simps [simp]:
  "inst (set_inst f a) = f (inst a)" "native (set_inst f a) = native a"
  "dispatchers (set_inst f a) = dispatchers a"
  by (simp_all add: set_inst_def)

text \<open>Switching the CPU profiler on while the server runs.\<close>

lemma start_cpu_profiling_ok:
  assumes "reachable enc (native a)" and "logger (native a) \<noteq> None"
    and "clock_ok clock" and "interval_ok interval"
  shows "\<exists>s. start_cpu_profiling sampling clock interval a
      = Inr (Returned (), (set_inst (\<lambda>i. i\<lparr>iv_cpu_profiling_mode := sampling\<rparr>) a)\<lparr>native := s\<rparr>)
    \<and> reachable enc s \<and> logger s \<noteq> None \<and> sampling_on s \<and> io_view s = io_view (native a)"
proof -
  from assms(3,4) obtain n usec where n: "symbol_name clock = Some n"
    and usec: "FIX2INT (integer_of interval) = Inr usec"
    by (auto simp: clock_ok_def interval_ok_def returns_def)
  from profile_on_ok [OF assms(1,2) usec, of n] obtain s where
    s: "start_sampling_profiler (Some n) (integer_of interval) (native a) = Inr s"
      "reachable enc s" "logger s \<noteq> None" "sampling_on s" "io_view s = io_view (native a)" by blast
  then show ?thesis
    using n by (intro exI [of _ s]) (simp add: start_cpu_profiling_def Let_def native_call_def)
qed

lemma stop_cpu_profiling_ok:
  assumes "linked enc (inst a) (native a)" and "iv_server_running (inst a)"
  shows "\<exists>s. stop_cpu_profiling a = Inr (Returned (), a\<lparr>native := s\<rparr>)
    \<and> linked enc (inst a) s \<and> \<not> sampling_on s \<and> logger s \<noteq> None \<and> io_view s = io_view (native a)"
proof (cases "iv_cpu_profiling_mode (inst a) = sampling")
  case True
  from assms profile_off_ok [of enc "native a"] obtain s where
    s: "stop_sampling_profiler (native a) = Inr s" "reachable enc s" "logger s \<noteq> None" "\<not> sampling_on s"
      "io_view s = io_view (native a)" by (auto simp: linked_def)
  with True assms show ?thesis
    by (intro exI [of _ s]) (simp add: stop_cpu_profiling_def native_call_def linked_def)
next
  case False
  with assms show ?thesis
    by (intro exI [of _ "native a"]) (auto simp: stop_cpu_profiling_def linked_def)
qed

section \<open>The application's calls\<close>

lemma linked_options: "options_ok opts \<Longrightarrow> clock_ok (iv_clock_type i) \<Longrightarrow>
   interval_ok (iv_cpu_sampling_interval_usec i) \<Longrightarrow>
   clock_ok (iv_clock_type (start_options_of opts i))
     \<and> interval_ok (iv_cpu_sampling_interval_usec (start_options_of opts i))"
  by (simp add: options_ok_def start_options_of_def given_def)

text \<open>
  Starting an instance that does not run: a failed bind changes nothing but the C server's
  sockets, and otherwise the instance runs and has one more dispatch thread.
\<close>

lemma start_ok:
  assumes l: "linked enc (inst a) (native a)" and n: "\<not> iv_server_running (inst a)" and o: "options_ok opts"
    and f: "\<not> overflowing z (inst a)"
  shows "\<exists>ok a'. start z opts a = Inr (Returned ok, a') \<and> linked enc (inst a') (native a')
    \<and> dispatchers a' = dispatchers a @ (if ok then [At_top] else []) \<and> iv_server_running (inst a') = ok
    \<and> iv_stop_profiler_thread (inst a') = iv_stop_profiler_thread (inst a)
    \<and> iv_pub_port (inst a') = iv_pub_port (inst a) \<and> iv_request_port (inst a') = iv_request_port (inst a)
    \<and> (ok \<longrightarrow> iv_enable_gc_stats (inst a') = opt_enable_gc_stats opts)
    \<and> (ok \<longrightarrow> sampling_on (native a') = enable_cpu_profiling opts)
    \<and> (binds z \<longrightarrow> ok \<and> zmq_response_socket (native a') = (if iv_request_port (inst a) = 0
          then zmq_response_socket (native a) else Some (new_socket z ZMQ_REP)))"
proof -
  from bind_ok [OF l n f] obtain ok s where
    b: "bind_server z a = Inr (ok, a\<lparr>native := s\<rparr>)" "reachable enc s" "\<not> sampling_on s"
      "logger s \<noteq> None \<longleftrightarrow> ok"
      "binds z \<longrightarrow> ok \<and> zmq_response_socket s = (if iv_request_port (inst a) = 0
          then zmq_response_socket (native a) else Some (new_socket z ZMQ_REP))"
      "ok \<longrightarrow> iv_pub_port (inst a) < 10000 \<and> iv_request_port (inst a) < 10000" by blast
  show ?thesis
  proof (cases ok)
    case False
    with b l n have "start z opts a = Inr (Returned False, a\<lparr>native := s\<rparr>)"
      and "linked enc (inst a) s" by (simp_all add: start_def linked_def)
    with False n b(5) show ?thesis by auto
  next
    case True
    with b have run: "logger s \<noteq> None" by simp
    obtain s1 where s1: "(if enable_object_trace opts then native_call start_stat_tracing (a\<lparr>native := s\<rparr>)
          else Inr (Returned (), a\<lparr>native := s\<rparr>)) = Inr (Returned (), a\<lparr>native := s1\<rparr>)"
        "reachable enc s1" "logger s1 \<noteq> None" "\<not> sampling_on s1" "io_view s1 = io_view s"
      using trace_on_ok [OF b(2) run] run b(2,3)
      by (cases "enable_object_trace opts") (fastforce simp: native_call_def keeps_mode_def)+
    let ?a = "set_inst (start_options_of opts) (a\<lparr>native := s1\<rparr>)"
    from l linked_options [OF o] have c: "clock_ok (iv_clock_type (inst ?a))"
      "interval_ok (iv_cpu_sampling_interval_usec (inst ?a))" by (simp_all add: linked_def)
    have p: "iv_pub_port (inst ?a) = iv_pub_port (inst a)" "iv_request_port (inst ?a) = iv_request_port (inst a)"
      "iv_stop_profiler_thread (inst ?a) = iv_stop_profiler_thread (inst a)" "dispatchers ?a = dispatchers a"
      by (simp_all add: start_options_of_def)
    obtain a2 where a2: "(if enable_cpu_profiling opts then start_cpu_profiling sampling
             (iv_clock_type (inst ?a)) (iv_cpu_sampling_interval_usec (inst ?a)) ?a
           else Inr (Returned (), ?a)) = Inr (Returned (), a2)"
        "reachable enc (native a2)" "logger (native a2) \<noteq> None"
        "sampling_on (native a2) \<longrightarrow> iv_cpu_profiling_mode (inst a2) = sampling"
        "sampling_on (native a2) = enable_cpu_profiling opts"
        "clock_ok (iv_clock_type (inst a2))" "interval_ok (iv_cpu_sampling_interval_usec (inst a2))"
        "iv_pub_port (inst a2) = iv_pub_port (inst a)" "iv_request_port (inst a2) = iv_request_port (inst a)"
        "iv_stop_profiler_thread (inst a2) = iv_stop_profiler_thread (inst a)" "dispatchers a2 = dispatchers a"
        "io_view (native a2) = io_view s"
    proof (cases "enable_cpu_profiling opts")
      case True
      from start_cpu_profiling_ok [of enc ?a, OF _ _ c] s1 obtain s2 where
        s2: "start_cpu_profiling sampling (iv_clock_type (inst ?a)) (iv_cpu_sampling_interval_usec (inst ?a)) ?a
          = Inr (Returned (), (set_inst (\<lambda>i. i\<lparr>iv_cpu_profiling_mode := sampling\<rparr>) ?a)\<lparr>native := s2\<rparr>)"
          "reachable enc s2" "logger s2 \<noteq> None" "sampling_on s2" "io_view s2 = io_view s" by auto
      show ?thesis
        by (rule that [of "(set_inst (\<lambda>i. i\<lparr>iv_cpu_profiling_mode := sampling\<rparr>) ?a)\<lparr>native := s2\<rparr>"])
          (use True s2 c p in simp_all)
    next
      case False
      show ?thesis by (rule that [of ?a]) (use False s1 c p in simp_all)
    qed
    let ?a3 = "(set_inst (\<lambda>i. i\<lparr>iv_enable_gc_stats := opt_enable_gc_stats opts, iv_server_running := True\<rparr>) a2)
        \<lparr>dispatchers := dispatchers a2 @ [At_top]\<rparr>"
    have "start z opts a = Inr (Returned True, ?a3)"
      using n True b(1) s1(1) a2(1) by (simp add: start_def Let_def)
    moreover have "linked enc (inst ?a3) (native ?a3)" using l a2 True b(6) by (simp add: linked_def)
    moreover have "zmq_response_socket (native a2) = zmq_response_socket s"
      using a2(12) by (simp add: io_view_def)
    ultimately show ?thesis using True a2(5,8-11) b(5)
      by (intro exI [of _ True] exI [of _ ?a3]) simp
  qed
qed

lemma stop_app_ok:
  assumes l: "linked enc (inst a) (native a)" and n: "iv_server_running (inst a)"
  shows "\<exists>a'. stop a = Inr (Returned True, a') \<and> linked enc (inst a') (native a')
    \<and> dispatchers a' = dispatchers a \<and> \<not> iv_server_running (inst a') \<and> logger (native a') = None
    \<and> iv_stop_profiler_thread (inst a')
    \<and> iv_pub_port (inst a') = iv_pub_port (inst a) \<and> iv_request_port (inst a') = iv_request_port (inst a)"
proof -
  let ?a = "set_inst (\<lambda>i. i\<lparr>iv_stop_profiler_thread := True\<rparr>) a"
  from l n have "linked enc (inst ?a) (native ?a)" "iv_server_running (inst ?a)" by (simp_all add: linked_def)
  from stop_cpu_profiling_ok [OF this] obtain s where
    s: "stop_cpu_profiling ?a = Inr (Returned (), ?a\<lparr>native := s\<rparr>)" "linked enc (inst ?a) s"
      "\<not> sampling_on s" "logger s \<noteq> None" by blast
  from stop_ok [of enc s] s obtain s' where
    s': "stop_stat_server s = Inr s'" "reachable enc s'" "logger s' = None" by (auto simp: linked_def)
  let ?a' = "set_inst (\<lambda>i. i\<lparr>iv_server_running := False\<rparr>) (?a\<lparr>native := s'\<rparr>)"
  have "stop a = Inr (Returned True, ?a')" using n s(1) s'(1) by (simp add: stop_def native_call_def)
  moreover have "linked enc (inst ?a') (native ?a')"
    using s(2) s' by (simp add: linked_def sampling_on_def)
  ultimately show ?thesis using s'(3) by (intro exI [of _ ?a']) simp
qed

lemma linked_profile_on:
  assumes l: "linked enc (inst a) (native a)" and r: "start_cpu_profiling sampling clock interval a = Inr (x, a')"
  shows "linked enc (inst a') (native a') \<and> dispatchers a' = dispatchers a
    \<and> iv_server_running (inst a') = iv_server_running (inst a)"
proof (cases "start_sampling_profiler (symbol_name clock) (integer_of interval) (native a)")
  case (Inl e)
  with l r show ?thesis
    by (auto simp: start_cpu_profiling_def native_call_def Let_def linked_def split: if_splits)
next
  case (Inr s)
  then have "logger (native a) \<noteq> None" and "logger s \<noteq> None"
    by (auto simp: start_sampling_profiler_def the_logger_def set_sampling_def and_then_eq_Inr
      split: option.splits if_splits)
  moreover from l Inr have "reachable enc s" by (auto simp: linked_def intro: reach_profile_on)
  ultimately show ?thesis using Inr l r
    by (auto simp: start_cpu_profiling_def native_call_def Let_def linked_def)
qed

lemma linked_profile_off:
  assumes l: "linked enc (inst a) (native a)" and r: "stop_cpu_profiling a = Inr (x, a')"
  shows "linked enc (inst a') (native a') \<and> dispatchers a' = dispatchers a
    \<and> iv_server_running (inst a') = iv_server_running (inst a)"
proof (cases "iv_server_running (inst a)")
  case True
  from stop_cpu_profiling_ok [OF l True] obtain s where
    "stop_cpu_profiling a = Inr (Returned (), a\<lparr>native := s\<rparr>)" "linked enc (inst a) s" by blast
  with r show ?thesis by auto
next
  case False
  with l have "stop_sampling_profiler (native a) = Inl Null_dereference"
    by (simp add: linked_def stop_sampling_profiler_def the_logger_def)
  with l r show ?thesis by (auto simp: stop_cpu_profiling_def native_call_def split: if_splits)
qed

section \<open>The thread's steps\<close>

lemma native_reply_ok:
  "f (native a) = Inr (x, s) \<Longrightarrow>
     native_reply f a = Inr (if x then Raised None else Returned (), a\<lparr>native := s\<rparr>)"
  by (simp add: native_reply_def)

lemma command_cases:
  obtains "c = ''start_memory_profile''" | "c = ''stop_memory_profile''" | "c = ''trigger_gc''"
    | "c = ''objectspace_snapshot''" | "c = ''handshake''" | "c = ''use_cpu_time''" | "c = ''use_wall_time''"
    | "c = ''start_cpu_profiling''" | "c = ''stop_cpu_profiling''" | "c \<notin> set commands"
proof (cases "c \<in> set commands")
  case True
  then show ?thesis unfolding commands_def list.set insert_iff empty_iff
    by (elim disjE FalseE) (fact that)+
next
  case False
  then show ?thesis by (fact that)
qed

text \<open>Any other request does nothing.\<close>

lemma process_command_other: "cmd \<notin> set commands \<Longrightarrow> process_command e cmd a = Inr (Returned (), a)"
  unfolding commands_def process_command_def list.set insert_iff empty_iff de_Morgan_disj by simp

text \<open>
  A command that the loop runs on a running server ends, and only the handshake can raise
  (in the respond callback) or touch the sockets.
\<close>

lemma process_command_ok:
  assumes l: "linked enc (inst a) (native a)" and n: "iv_server_running (inst a)"
    and e: "step_ok enc e (At_command cmd) a"
  shows "\<exists>x a'. process_command e cmd a = Inr (x, a') \<and> linked enc (inst a') (native a')
    \<and> dispatchers a' = dispatchers a \<and> iv_server_running (inst a')
    \<and> (cmd \<noteq> ''handshake'' \<longrightarrow> x = Returned () \<and> io_view (native a') = io_view (native a))"
proof -
  from l n have r: "reachable enc (native a)" "logger (native a) \<noteq> None" by (simp_all add: linked_def)
  from l n have c: "clock_ok (iv_clock_type (inst a))" "interval_ok (iv_cpu_sampling_interval_usec (inst a))"
    by (simp_all add: linked_def)
  have lk: "linked enc (inst a) s'" if "reachable enc s'" "keeps_mode (native a) s'" for s'
    using linked_native [OF l that] .
  have gc: "linked enc (i\<lparr>iv_enable_gc_stats := b\<rparr>) s' = linked enc i s'" for i b s' by (simp add: linked_def)
  have clk: "linked enc (i\<lparr>iv_clock_type := Rb_symbol t\<rparr>) s'" if "linked enc i s'" for i t s'
    using that by (simp add: linked_def clock_ok_def)
  show ?thesis
  proof (cases cmd rule: command_cases)
    case 1
    with trace_on_ok [OF r] n lk show ?thesis
      by (auto simp: process_command_def native_call_def gc)
  next
    case 2
    with trace_off_ok [OF r] n lk show ?thesis
      by (auto simp: process_command_def native_call_def gc)
  next
    case 3
    with e fire_all_ok [OF r(1), of "env_gc e"] n lk show ?thesis
      by (auto simp: process_command_def native_call_def)
  next
    case 4
    with e dump_ok [OF r, of "env_host e" "env_heap e"] n lk show ?thesis
      by (auto simp: process_command_def native_call_def)
  next
    case 5
    with e obtain b where "env_during e = only_raises b"
      "hash_ok (rbkit_status_as_hash (status_process e (inst a)) (native a))" by auto
    with 5 handshake_ok [OF r(1) this(2), of "env_host e" b] n lk show ?thesis
      by (auto simp: process_command_def native_reply_def)
  next
    case 6
    with l n clk show ?thesis by (simp add: process_command_def)
  next
    case 7
    with l n clk show ?thesis by (simp add: process_command_def)
  next
    case 8
    from start_cpu_profiling_ok [OF r c] obtain s where
      s: "start_cpu_profiling sampling (iv_clock_type (inst a)) (iv_cpu_sampling_interval_usec (inst a)) a
        = Inr (Returned (), (set_inst (\<lambda>i. i\<lparr>iv_cpu_profiling_mode := sampling\<rparr>) a)\<lparr>native := s\<rparr>)"
        "reachable enc s" "logger s \<noteq> None" "io_view s = io_view (native a)" by blast
    with 8 l n show ?thesis by (simp add: process_command_def linked_def)
  next
    case 9
    with stop_cpu_profiling_ok [OF l n] n show ?thesis by (auto simp: process_command_def)
  next
    case 10
    with l n show ?thesis by (simp add: process_command_other)
  qed
qed

text \<open>A timer's time is no part of the link.\<close>

lemma linked_timers [simp]:
  "linked enc (i\<lparr>iv_gc_stats_timer := t\<rparr>) s = linked enc i s"
  "linked enc (i\<lparr>iv_message_dispatch_timer := t\<rparr>) s = linked enc i s"
  by (simp_all add: linked_def)

lemma FIX2INT_gc_stats: "FIX2INT (Some (uint (event_code gc_stats))) = Inr 6"
  by (simp add: FIX2INT_def)

lemma gc_stats_ok:
  assumes l: "linked enc (inst a) (native a)"
    and e: "env_stats e = Inr data" "hash_room enc (env_host e) data (native a)"
  shows "\<exists>s. gc_stats_block e a = Inr (Returned (), a\<lparr>native := s\<rparr>) \<and> linked enc (inst a) s
    \<and> io_view s = io_view (native a)"
proof -
  from l e have "reachable enc (native a)" "hash_room enc (env_host e) data (native a)"
    by (simp_all add: linked_def)
  from hash_ok_sent [OF this FIX2INT_gc_stats] obtain x s where
    "send_hash_as_event (env_host e) data (Some (uint (event_code gc_stats))) (native a) = Inr (x, s)"
    "reachable enc s" "keeps_mode (native a) s" "io_view s = io_view (native a)" by auto
  with linked_native [OF l] e(1) show ?thesis
    by (auto simp: gc_stats_block_def native_call_def simp del: event_code.simps)
qed

lemma linked_send_messages:
  "linked enc i s \<Longrightarrow> linked enc i (send_messages h s)"
  by (rule linked_native) (auto simp: linked_def rbkit_frame intro: reach_flush keeps_mode_logger)

lemma dispatch_step_ok:
  assumes l: "linked enc (inst a) (native a)" and e: "step_ok enc e pc a"
    and n: "\<forall>cmd. pc = At_command cmd \<longrightarrow> iv_server_running (inst a)"
  shows "\<exists>pc' a'. dispatch_step e pc a = Inr (pc', a') \<and> linked enc (inst a') (native a')
    \<and> dispatchers a' = dispatchers a \<and> iv_server_running (inst a') = iv_server_running (inst a)
    \<and> (\<forall>cmd. pc' = At_command cmd \<longrightarrow> iv_server_running (inst a))"
proof (cases pc)
  case At_poll
  with l e have "reachable enc (native a)" "env_revents e \<noteq> 0 \<longrightarrow> env_frame e \<noteq> None"
    by (simp_all add: linked_def)
  from poll_ok [OF this] obtain request s where
    "poll_for_request (env_revents e) (env_frame e) (native a) = Inr (request, s)"
    "reachable enc s" "keeps_mode (native a) s" by blast
  with At_poll linked_native [OF l] show ?thesis by (auto split: option.splits)
next
  case (At_command cmd)
  with n have run: "iv_server_running (inst a)" by simp
  from process_command_ok [OF l run e [unfolded At_command]] run At_command show ?thesis
    by (fastforce simp: go_on_def split: completion.splits)
next
  case At_ack
  with e obtain b where "env_during e = only_raises b" by auto
  moreover from l have "reachable enc (native a)" by (simp add: linked_def)
  from respond_ok [OF this, of b "bytes_of ''ok''"] obtain x s where
    "respond_with_message (only_raises b) (bytes_of ''ok'') (native a) = Inr (x, s)"
    "reachable enc s" "keeps_mode (native a) s" by blast
  ultimately show ?thesis
    using At_ack linked_native [OF l] by (simp add: send_command_ack_def native_reply_def go_on_def)
next
  case At_gc_timer
  show ?thesis
  proof (cases "iv_enable_gc_stats (inst a) \<and> timer_due (env_now e) (iv_gc_stats_timer (inst a))")
    case True
    show ?thesis
    proof (cases "env_stats e")
      case (Inl err)
      with e At_gc_timer True have "gc_stats_block e a = Inr (Raised (Some err), a)"
        by (simp add: gc_stats_block_def native_call_def)
      with True At_gc_timer l show ?thesis by (simp add: go_on_def ruby_then_def)
    next
      case (Inr data)
      with e At_gc_timer True gc_stats_ok [OF l Inr] obtain s where
        "gc_stats_block e a = Inr (Returned (), a\<lparr>native := s\<rparr>)" "linked enc (inst a) s" by auto
      with True At_gc_timer show ?thesis by (simp add: go_on_def)
    qed
  next
    case False
    with At_gc_timer l show ?thesis by auto
  qed
next
  case At_dispatch_timer
  with linked_send_messages [OF l] l show ?thesis by simp
qed (use l in simp_all)

lemma app_ok_calls:
  assumes "app_ok enc a" and "calm a"
  shows "linked enc (inst a) (native a)" and "At_command cmd \<notin> set (dispatchers a)"
  using assms by (auto simp: app_ok_def calm_def list_all_iff)

lemma dispatch_ok:
  assumes a: "app_ok enc a" and i: "i < length (dispatchers a)" and e: "step_ok enc e (dispatchers a ! i) a"
  shows "\<exists>a'. dispatch i e a = Inr a' \<and> app_ok enc a'"
proof -
  from a have l: "linked enc (inst a) (native a)"
    and n: "\<And>cmd. At_command cmd \<in> set (dispatchers a) \<Longrightarrow> iv_server_running (inst a)"
    by (auto simp: app_ok_def)
  have "\<forall>cmd. dispatchers a ! i = At_command cmd \<longrightarrow> iv_server_running (inst a)"
    using n i by (metis nth_mem)
  from dispatch_step_ok [OF l e this] obtain pc' a' where
    s: "dispatch_step e (dispatchers a ! i) a = Inr (pc', a')" "linked enc (inst a') (native a')"
      "dispatchers a' = dispatchers a" "iv_server_running (inst a') = iv_server_running (inst a)"
      "\<forall>cmd. pc' = At_command cmd \<longrightarrow> iv_server_running (inst a)" by blast
  let ?a = "a'\<lparr>dispatchers := (dispatchers a)[i := pc']\<rparr>"
  have "iv_server_running (inst a)" if "At_command cmd \<in> set (dispatchers ?a)" for cmd
    using that n s(5) set_update_subset_insert [of "dispatchers a" i pc'] by auto
  with s have "app_ok enc ?a" by (simp add: app_ok_def)
  with s show ?thesis by (simp add: dispatch_def)
qed

lemma app_start_ok:
  assumes a: "app_ok enc a" and o: "options_ok opts"
    and f: "iv_server_running (inst a) \<or> \<not> overflowing z (inst a)"
  shows "\<exists>ok a'. start z opts a = Inr (Returned ok, a') \<and> (calm a \<longrightarrow> app_ok enc a')"
proof (cases "iv_server_running (inst a)")
  case True
  with a show ?thesis by (auto simp: start_def)
next
  case False
  from a have l: "linked enc (inst a) (native a)" by (simp add: app_ok_def)
  from f False have "\<not> overflowing z (inst a)" by simp
  from start_ok [OF l False o this] obtain ok a' where s: "start z opts a = Inr (Returned ok, a')"
    "linked enc (inst a') (native a')" "dispatchers a' = dispatchers a @ (if ok then [At_top] else [])" by blast
  with app_ok_calls(2) [OF a] have "calm a \<longrightarrow> app_ok enc a'" by (simp add: app_ok_def)
  with s(1) show ?thesis by blast
qed

lemma app_stop_ok:
  assumes a: "app_ok enc a"
  shows "\<exists>b a'. stop a = Inr (Returned b, a') \<and> (calm a \<longrightarrow> app_ok enc a')"
proof (cases "iv_server_running (inst a)")
  case False
  with a show ?thesis by (auto simp: stop_def)
next
  case True
  from a have l: "linked enc (inst a) (native a)" by (simp add: app_ok_def)
  from stop_app_ok [OF l True] obtain a' where s: "stop a = Inr (Returned True, a')"
    "linked enc (inst a') (native a')" "dispatchers a' = dispatchers a" by blast
  with app_ok_calls(2) [OF a] have "calm a \<longrightarrow> app_ok enc a'" by (simp add: app_ok_def)
  with s(1) show ?thesis by blast
qed

lemma initialize_ports:
  assumes "initialize now p q = Inr i"
  shows "iv_pub_port i = p \<and> iv_request_port i = q \<and> valid_port p \<and> valid_port q"
  using assms by (auto simp: initialize_def validate_port_range_valid split: if_splits)

lemma new_app_ok:
  assumes "initialize now p q = Inr i"
  shows "app_ok enc (new_app i server_init)"
proof -
  have i: "iv_clock_type i = Rb_symbol ''cpu''" "iv_cpu_sampling_interval_usec i = Rb_int 1000"
    "\<not> iv_server_running i"
    using assms by (auto simp: initialize_def split: if_splits)
  have "reachable enc (server_init\<lparr>publish_callback := False, respond_callback := False\<rparr>)"
    by (rule reach_callback [OF reach_init])
  with i initialize_ports [OF assms] show ?thesis
    by (simp add: app_ok_def new_app_def linked_def clock_ok_def interval_ok_def FIX2INT_def sampling_on_def
      server_init_def)
qed

lemma app_reachable_ok: "app_reachable enc a \<Longrightarrow> app_ok enc a"
proof (induction rule: app_reachable.induct)
  case app_new
  then show ?case by (rule new_app_ok)
next
  case (app_start a opts z x a')
  from app_start.IH have l: "linked enc (inst a) (native a)" by (simp add: app_ok_def)
  have "iv_server_running (inst a) \<or> \<not> overflowing z (inst a)"
    using bind_overflows [OF l, of z] app_start.hyps(4) by (auto simp: start_def)
  with app_start_ok [OF app_start.IH app_start.hyps(3) this] app_start.hyps(2,4) show ?case by auto
next
  case (app_stop a x a')
  with app_stop_ok [OF app_stop.IH] show ?case by auto
next
  case (app_profile_on a clock interval x a')
  note l = app_ok_calls [OF app_profile_on.IH app_profile_on.hyps(2)]
  from linked_profile_on [OF l(1) app_profile_on.hyps(3)] l(2) show ?case by (simp add: app_ok_def)
next
  case (app_profile_off a x a')
  note l = app_ok_calls [OF app_profile_off.IH app_profile_off.hyps(2)]
  from linked_profile_off [OF l(1) app_profile_off.hyps(3)] l(2) show ?case by (simp add: app_ok_def)
next
  case (app_dispatch a i e a')
  with dispatch_ok [of enc a i e] show ?case by auto
next
  case (app_background a s)
  from app_background.IH have l: "linked enc (inst a) (native a)" by (simp add: app_ok_def)
  then have "reachable enc (native a)" by (simp add: linked_def)
  with background_reachable background_mode app_background.hyps(2) linked_native [OF l]
  have "linked enc (inst a) s" by blast
  with app_background.IH show ?case by (simp add: app_ok_def)
qed

end
