(* ===== verification/Ruby_Properties.thy ===== *)
theory Ruby_Properties
  imports Ruby_Safety
begin

text \<open>
  The properties of the Ruby class over the C server: no call crashes, every request has
  its reply, a stop leaves nothing behind; and the orders of calls the class does not
  guard against.
\<close>

section \<open>Safety\<close>

text \<open>
  Claim C3. When a call or a step can crash the process. The states are those of
  \<open>app_reachable\<close>: an instance on any ports its constructor accepts, called while the
  dispatch threads are at the top of their loops, with options of the right types, and
  profiling in the sampling mode only. In each of them a start with options of the right
  types ends the process exactly when the instance does not run and a port of five digits
  is written into an endpoint buffer; otherwise it returns. A stop returns, whatever the
  threads are at, and so does every step of a dispatch thread that has the room and the
  answers it relies on.
\<close>

theorem ruby_api_safe:
  assumes "app_reachable enc a"
  shows "(options_ok opts \<longrightarrow>
        (if \<not> iv_server_running (inst a) \<and> long_ports z (iv_pub_port (inst a)) (iv_request_port (inst a))
         then start z opts a = Inl Out_of_bounds
         else \<exists>ok a'. start z opts a = Inr (Returned ok, a')))
    \<and> (\<exists>b a'. stop a = Inr (Returned b, a'))
    \<and> (i < length (dispatchers a) \<and> step_ok enc e (dispatchers a ! i) a \<longrightarrow> returns (dispatch i e a))"
proof (intro conjI impI)
  note ok = app_reachable_ok [OF assms]
  then have l: "linked enc (inst a) (native a)" by (simp add: app_ok_def)
  show "if \<not> iv_server_running (inst a) \<and> overflowing z (inst a) then start z opts a = Inl Out_of_bounds
      else \<exists>ok a'. start z opts a = Inr (Returned ok, a')" if "options_ok opts"
    using app_start_ok [OF ok that, of z] bind_overflows [OF l, of z] by (auto simp: start_def)
  show "\<exists>b a'. stop a = Inr (Returned b, a')" using app_stop_ok [OF ok] by blast
  show "returns (dispatch i e a)" if "i < length (dispatchers a) \<and> step_ok enc e (dispatchers a ! i) a"
    using dispatch_ok [OF ok, of i e] that by auto
qed

text \<open>A new instance on the default ports, started with a profiler on the wall clock.\<close>

definition example_instance :: ruby_server where
  "example_instance = \<lparr>iv_pub_port = 5555, iv_request_port = 5556, iv_stop_profiler_thread = False,
     iv_server_running = False, iv_enable_gc_stats = False, iv_clock_type = Rb_symbol ''cpu'',
     iv_cpu_profiling_mode = Rb_symbol ''sampling'', iv_cpu_sampling_interval_usec = Rb_int 1000,
     iv_gc_stats_timer = \<lparr>timer_interval = 5, last_fired_at = 0\<rparr>,
     iv_message_dispatch_timer = \<lparr>timer_interval = 1, last_fired_at = 0\<rparr>\<rparr>"

lemma example_new: "app_reachable ref_enc (new_app example_instance server_init)"
  by (rule app_new [of 0 5555 5556])
    (simp add: initialize_def validate_port_range_def example_instance_def)

lemma example_calm: "calm (new_app example_instance server_init)"
  by (simp add: calm_def new_app_def)

lemma example_started:
  assumes "options_ok opts"
  shows "\<exists>a. start example_zmq opts (new_app example_instance server_init) = Inr (Returned True, a)
    \<and> app_reachable ref_enc a \<and> calm a \<and> dispatchers a = [At_top] \<and> iv_server_running (inst a)
    \<and> \<not> iv_stop_profiler_thread (inst a) \<and> sampling_on (native a) = enable_cpu_profiling opts
    \<and> zmq_response_socket (native a) = Some 3 \<and> iv_request_port (inst a) \<noteq> 0
    \<and> iv_enable_gc_stats (inst a) = opt_enable_gc_stats opts"
proof -
  let ?a = "new_app example_instance server_init"
  have l: "linked ref_enc (inst ?a) (native ?a)" "\<not> iv_server_running (inst ?a)"
    using app_reachable_ok [OF example_new]
    by (simp_all add: app_ok_def) (simp add: new_app_def example_instance_def)
  have i: "iv_request_port (inst ?a) = 5556" "\<not> iv_stop_profiler_thread (inst ?a)" "dispatchers ?a = []"
    by (simp_all add: new_app_def example_instance_def)
  have "\<not> overflowing example_zmq (inst ?a)"
    by (simp add: long_ports_def new_app_def example_instance_def)
  from start_ok [OF l assms this] example_binds i obtain a where
    a: "start example_zmq opts ?a = Inr (Returned True, a)" "dispatchers a = [At_top]"
      "iv_server_running (inst a)" "\<not> iv_stop_profiler_thread (inst a)"
      "sampling_on (native a) = enable_cpu_profiling opts"
      "zmq_response_socket (native a) = Some (new_socket example_zmq ZMQ_REP)"
      "iv_request_port (inst a) = 5556" "iv_enable_gc_stats (inst a) = opt_enable_gc_stats opts" by auto
  moreover have "calm a" using a(2) by (simp add: calm_def)
  moreover have "app_reachable ref_enc a" by (rule app_start [OF example_new example_calm assms a(1)])
  ultimately show ?thesis by (simp add: example_zmq_def)
qed

lemma options_ok_examples: "options_ok no_options" "options_ok profiling_options"
  by (simp_all add: options_ok_def no_options_def profiling_options_def clock_ok_def interval_ok_def
    FIX2INT_def truthy_def)

definition example_env :: dispatch_env where
  "example_env = \<lparr>env_host = example_host, env_revents = 1, env_frame = Some ''start_memory_profile'',
     env_gc = [], env_heap = [], env_process = example_process, env_to_s = (\<lambda>_. ''''), env_stats = Inr [],
     env_during = only_raises False, env_now = 0, env_later = 0\<rparr>"

theorem ruby_api_safe_witness:
  "(\<exists>a. start example_zmq profiling_options (new_app example_instance server_init) = Inr (Returned True, a)
      \<and> (\<exists>b a'. stop a = Inr (Returned b, a')) \<and> returns (dispatch 0 example_env a))
    \<and> start example_zmq profiling_options
        (new_app (example_instance\<lparr>iv_pub_port := 55555\<rparr>) server_init) = Inl Out_of_bounds"
proof
  from example_started [OF options_ok_examples(2)] obtain a where
    a: "start example_zmq profiling_options (new_app example_instance server_init) = Inr (Returned True, a)"
      "app_reachable ref_enc a" "dispatchers a = [At_top]" by blast
  with ruby_api_safe [OF a(2), of no_options example_zmq 0 example_env]
  show "\<exists>a. start example_zmq profiling_options (new_app example_instance server_init) = Inr (Returned True, a)
      \<and> (\<exists>b a'. stop a = Inr (Returned b, a')) \<and> returns (dispatch 0 example_env a)" by auto
  let ?i = "example_instance\<lparr>iv_pub_port := 55555\<rparr>"
  have "app_reachable ref_enc (new_app ?i server_init)"
    by (rule app_new [of 0 55555 5556]) (simp add: initialize_def validate_port_range_def example_instance_def)
  from ruby_api_safe [OF this, of profiling_options example_zmq] options_ok_examples(2)
  show "start example_zmq profiling_options (new_app ?i server_init) = Inl Out_of_bounds"
    by (simp add: new_app_def example_instance_def long_ports_def)
qed

text \<open>
  Claim C12. What a stop leaves behind. A stop of a running instance that was profiled in
  the sampling mode only returns true, whatever the dispatch threads are at; then the C
  server has no logger, no tracepoint of it is enabled and no interval timer runs. A
  thread that comes to the top of its loop ends there, one that has received a request
  but not yet tested that the server runs drops it, and so, when the threads were at the
  top of their loops, each ends at its next step. (A thread that has already tested goes
  on to its command: the claim on that case follows below.)
\<close>

theorem stop_leaves_nothing:
  assumes "app_reachable enc a" and "iv_server_running (inst a)"
  shows "\<exists>a'. stop a = Inr (Returned True, a') \<and> logger (native a') = None
    \<and> \<not> iv_server_running (inst a') \<and> dispatchers a' = dispatchers a
    \<and> list_all (\<lambda>tp. \<not> hook_enabled tp) (tracepoints (native a'))
    \<and> (\<forall>w. \<not> armed (cpu_profiler (native a')) w)
    \<and> dispatch_step e At_top a' = Inr (Finished, a')
    \<and> (\<forall>cmd. dispatch_step e (At_request cmd) a' = Inr (At_gc_timer, a'))
    \<and> (calm a \<longrightarrow> list_all (\<lambda>pc. dispatch_step e pc a' = Inr (Finished, a')) (dispatchers a'))"
proof -
  from app_reachable_ok [OF assms(1)] have l: "linked enc (inst a) (native a)" by (simp add: app_ok_def)
  from stop_app_ok [OF l assms(2)] obtain a' where a': "stop a = Inr (Returned True, a')"
    "linked enc (inst a') (native a')" "dispatchers a' = dispatchers a"
    "\<not> iv_server_running (inst a')" "logger (native a') = None" "iv_stop_profiler_thread (inst a')" by blast
  from a'(2) have r: "reachable enc (native a')" by (simp add: linked_def)
  from reachable_stopped [OF r a'(5)] have "list_all (\<lambda>tp. \<not> hook_enabled tp) (tracepoints (native a'))"
    by (simp add: stopped_def silent_def)
  moreover have "\<not> armed (cpu_profiler (native a')) w" for w
    using reachable_sound [OF r] a'(5) by (fastforce simp: sound_def profiler_ok_def sampling_on_def)
  moreover have "list_all (\<lambda>pc. dispatch_step e pc a' = Inr (Finished, a')) (dispatchers a')" if "calm a"
    using that a'(3,6) by (auto simp: calm_def list_all_iff)
  ultimately show ?thesis using a' by auto
qed

theorem stop_leaves_nothing_witness:
  "\<exists>a a'. start example_zmq profiling_options (new_app example_instance server_init) = Inr (Returned True, a)
    \<and> sampling_on (native a) \<and> stop a = Inr (Returned True, a') \<and> logger (native a') = None
    \<and> \<not> armed (cpu_profiler (native a')) ITIMER_REAL
    \<and> dispatchers a' = [At_top] \<and> dispatch_step example_env At_top a' = Inr (Finished, a')"
proof -
  from example_started [OF options_ok_examples(2)] obtain a where
    a: "start example_zmq profiling_options (new_app example_instance server_init) = Inr (Returned True, a)"
      "app_reachable ref_enc a" "dispatchers a = [At_top]" "iv_server_running (inst a)" "sampling_on (native a)"
    by (auto simp: profiling_options_def)
  with stop_leaves_nothing [OF a(2,4), of example_env] show ?thesis
    by (simp del: dispatch_step.simps) blast
qed

section \<open>Requests\<close>

definition tracing_on :: "server \<Rightarrow> bool" where
  "tracing_on s \<longleftrightarrow> (\<exists>l. logger s = Some l \<and> lg_enabled l)"

text \<open>
  Claim C16. What the requests do. On a running server the two profile requests switch
  tracing and the collector statistics on and off, the two CPU requests switch sampling
  on and off (off stops both timers), the two clock requests only store the clock for the
  next start, and a request the server does not know changes nothing.
\<close>

theorem commands_take_effect:
  assumes "app_reachable enc a" and "iv_server_running (inst a)"
  shows "(\<exists>a'. process_command e ''start_memory_profile'' a = Inr (Returned (), a')
          \<and> tracing_on (native a') \<and> iv_enable_gc_stats (inst a'))
    \<and> (\<exists>a'. process_command e ''stop_memory_profile'' a = Inr (Returned (), a')
          \<and> \<not> tracing_on (native a') \<and> \<not> iv_enable_gc_stats (inst a'))
    \<and> (\<exists>a'. process_command e ''start_cpu_profiling'' a = Inr (Returned (), a') \<and> sampling_on (native a'))
    \<and> (\<exists>a'. process_command e ''stop_cpu_profiling'' a = Inr (Returned (), a')
          \<and> \<not> sampling_on (native a') \<and> (\<forall>w. \<not> armed (cpu_profiler (native a')) w))
    \<and> (\<exists>a'. process_command e ''use_wall_time'' a = Inr (Returned (), a') \<and> native a' = native a
          \<and> iv_clock_type (inst a') = Rb_symbol ''wall'')
    \<and> (\<exists>a'. process_command e ''use_cpu_time'' a = Inr (Returned (), a') \<and> native a' = native a
          \<and> iv_clock_type (inst a') = Rb_symbol ''cpu'')
    \<and> (cmd \<notin> set commands \<longrightarrow> process_command e cmd a = Inr (Returned (), a))"
proof -
  from app_reachable_ok [OF assms(1)] have l: "linked enc (inst a) (native a)" by (simp add: app_ok_def)
  with assms(2) have r: "reachable enc (native a)" "logger (native a) \<noteq> None"
    and c: "clock_ok (iv_clock_type (inst a))" "interval_ok (iv_cpu_sampling_interval_usec (inst a))"
    by (simp_all add: linked_def)
  from r obtain vs lg where rn: "running enc vs lg (native a)" by (rule reachable_running)
  from start_stat_tracing_running [OF rn] obtain s1 where
    s1: "start_stat_tracing (native a) = Inr s1" "running enc vs (lg\<lparr>lg_enabled := True\<rparr>) s1" by blast
  from stop_stat_tracing_running [OF rn] obtain s2 where
    s2: "stop_stat_tracing (native a) = Inr s2" "running enc vs (lg\<lparr>lg_enabled := False\<rparr>) s2" by blast
  from start_cpu_profiling_ok [OF r c] obtain s3 where
    s3: "start_cpu_profiling sampling (iv_clock_type (inst a)) (iv_cpu_sampling_interval_usec (inst a)) a
        = Inr (Returned (), (set_inst (\<lambda>i. i\<lparr>iv_cpu_profiling_mode := sampling\<rparr>) a)\<lparr>native := s3\<rparr>)"
      "sampling_on s3" by blast
  from stop_cpu_profiling_ok [OF l assms(2)] obtain s4 where
    s4: "stop_cpu_profiling a = Inr (Returned (), a\<lparr>native := s4\<rparr>)" "\<not> sampling_on s4"
      "linked enc (inst a) s4" by blast
  then have "reachable enc s4" by (simp add: linked_def)
  then have t4: "\<forall>w. \<not> armed (cpu_profiler s4) w"
    using reachable_sound [of enc s4] s4(2) by (fastforce simp: sound_def profiler_ok_def)
  have "process_command e cmd a = Inr (Returned (), a)" if "cmd \<notin> set commands"
    using process_command_other [OF that] .
  moreover have "\<exists>a'. process_command e ''start_memory_profile'' a = Inr (Returned (), a')
      \<and> tracing_on (native a') \<and> iv_enable_gc_stats (inst a')"
    using running_logger [OF s1(2)] s1(1) by (simp add: process_command_def native_call_def tracing_on_def)
  moreover have "\<exists>a'. process_command e ''stop_memory_profile'' a = Inr (Returned (), a')
      \<and> \<not> tracing_on (native a') \<and> \<not> iv_enable_gc_stats (inst a')"
    using running_logger [OF s2(2)] s2(1) by (simp add: process_command_def native_call_def tracing_on_def)
  ultimately show ?thesis
    using s3 s4 t4 by (simp add: process_command_def)
qed

theorem commands_take_effect_witness:
  "\<exists>a a'. start example_zmq no_options (new_app example_instance server_init) = Inr (Returned True, a)
    \<and> process_command example_env ''start_memory_profile'' a = Inr (Returned (), a')
    \<and> tracing_on (native a')
    \<and> process_command example_env ''hello'' a = Inr (Returned (), a)"
proof -
  from example_started [OF options_ok_examples(1)] obtain a where
    a: "start example_zmq no_options (new_app example_instance server_init) = Inr (Returned True, a)"
      "app_reachable ref_enc a" "iv_server_running (inst a)" by blast
  have "''hello'' \<notin> set commands" by (simp add: commands_def)
  with commands_take_effect [OF a(2,3), of example_env "''hello''"] a(1) show ?thesis by blast
qed

lemma respond_quiet:
  "zmq_response_socket s = Some k \<Longrightarrow> \<exists>s'. respond_with_message (only_raises False) buf s = Inr (False, s')
     \<and> zmq_log s' = zmq_log s @ [Zmq_send k buf]"
  by (cases "server_instance s \<and> respond_callback s")
    (auto simp: respond_with_message_def only_raises_def log_zmq_def Let_def)

text \<open>
  Claim C11. Every request has exactly one reply, as the protocol of the response socket
  demands. When a running server receives a request that is not empty, the dispatch
  thread runs it and comes to its timers, and on the socket one message was received and
  one sent: for a handshake the packed status, for every other request, known or not,
  the two bytes of \<open>ok\<close>.
\<close>

theorem one_reply_per_request:
  assumes "app_reachable enc a" and "iv_server_running (inst a)" and k: "zmq_response_socket (native a) = Some k"
    and "env_revents e \<noteq> 0" and "env_frame e = Some f"
    and cmd: "c_str (f @ [CHR 0x00]) = cmd" "cmd \<noteq> ''''"
    and room: "step_ok enc e (At_command cmd) (a\<lparr>native := log_zmq (Zmq_msg_recv (Some k)) (native a)\<rparr>)"
    and quiet: "env_during e = only_raises False" and codec: "msgpack_codec (host_enc (env_host e)) dec"
  shows "\<exists>a' reply. dispatch_pass (if cmd = ''handshake'' then 3 else 4) e At_poll a = Inr (At_gc_timer, a')
    \<and> zmq_log (native a') = zmq_log (native a) @ [Zmq_msg_recv (Some k), Zmq_send k reply]
    \<and> (if cmd = ''handshake''
       then unpack dec reply = Some (frame_value (host_clock (env_host e)) (event_code handshake)
              [(rbkit_message_field_payload,
                hash_value (rbkit_status_as_hash (status_process e (inst a)) (native a)))])
       else reply = bytes_of ''ok'')"
proof -
  from app_reachable_ok [OF assms(1)] have l: "linked enc (inst a) (native a)" by (simp add: app_ok_def)
  let ?s = "log_zmq (Zmq_msg_recv (Some k)) (native a)"
  let ?a = "a\<lparr>native := ?s\<rparr>"
  from l have r: "reachable enc (native a)" by (simp add: linked_def)
  from assms(4,5) cmd(1) k have poll: "poll_for_request (env_revents e) (env_frame e) (native a) = Inr (Some cmd, ?s)"
    by (simp add: poll_for_request_def tracer_string_recv_def)
  have rs: "reachable enc ?s" by (rule reach_poll [OF r poll])
  have "keeps_mode (native a) ?s" by (simp add: keeps_mode_logger log_zmq_def)
  from linked_native [OF l rs this] have ls: "linked enc (inst ?a) (native ?a)" by simp
  have st: "rbkit_status_as_hash p ?s = rbkit_status_as_hash p (native a)" for p
    by (simp add: rbkit_status_as_hash_def log_zmq_def)
  show ?thesis
  proof (cases "cmd = ''handshake''")
    case True
    let ?p = "status_process e (inst a)"
    from True room st have "hash_ok (rbkit_status_as_hash ?p ?s)" by simp
    from handshake_bytes [OF codec this] obtain bytes where
      b: "bytes \<noteq> []" "unpack dec bytes = Some (frame_value (host_clock (env_host e)) (event_code handshake)
          [(rbkit_message_field_payload, hash_value (rbkit_status_as_hash ?p ?s))])"
        "send_handshake_response (env_host e) ?p (only_raises False) ?s
          = respond_with_message (only_raises False) bytes ?s" by blast
    from respond_quiet [of ?s k bytes] k obtain s' where
      "respond_with_message (only_raises False) bytes ?s = Inr (False, s')"
      "zmq_log s' = zmq_log (native a) @ [Zmq_msg_recv (Some k), Zmq_send k bytes]" by (auto simp: log_zmq_def)
    with True b quiet poll assms(2) st show ?thesis
      by (simp add: numeral_eq_Suc process_command_def native_reply_def go_on_def)
  next
    case False
    from process_command_ok [OF ls _ room] assms(2) False obtain a1 where
      a1: "process_command e cmd ?a = Inr (Returned (), a1)" "io_view (native a1) = io_view ?s" by auto
    then have "zmq_response_socket (native a1) = Some k" "zmq_log (native a1) = zmq_log (native a) @ [Zmq_msg_recv (Some k)]"
      using k by (simp_all add: io_view_def log_zmq_def)
    with respond_quiet [of "native a1" k "bytes_of ''ok''"] obtain s' where
      "respond_with_message (only_raises False) (bytes_of ''ok'') (native a1) = Inr (False, s')"
      "zmq_log s' = zmq_log (native a) @ [Zmq_msg_recv (Some k), Zmq_send k (bytes_of ''ok'')]" by auto
    with False a1(1) quiet poll assms(2) cmd(2) show ?thesis
      by (simp add: numeral_eq_Suc native_reply_def go_on_def send_command_ack_def)
  qed
qed

theorem one_reply_per_request_witness:
  "\<exists>a a'. start example_zmq no_options (new_app example_instance server_init) = Inr (Returned True, a)
    \<and> dispatch_pass 4 example_env At_poll a = Inr (At_gc_timer, a')
    \<and> zmq_log (native a') = zmq_log (native a) @ [Zmq_msg_recv (Some 3), Zmq_send 3 (bytes_of ''ok'')]"
proof -
  from example_started [OF options_ok_examples(1)] obtain a where
    a: "start example_zmq no_options (new_app example_instance server_init) = Inr (Returned True, a)"
      "app_reachable ref_enc a" "iv_server_running (inst a)" "zmq_response_socket (native a) = Some 3" by blast
  have e: "env_revents example_env \<noteq> 0" "env_frame example_env = Some ''start_memory_profile''"
    "env_during example_env = only_raises False" "msgpack_codec (host_enc (env_host example_env)) ref_dec"
    by (simp_all add: example_env_def example_host_def ref_codec)
  have c: "c_str (''start_memory_profile'' @ [CHR 0x00]) = ''start_memory_profile''"
    "''start_memory_profile'' \<noteq> ''''" by (simp_all add: c_str_def)
  have "step_ok ref_enc example_env (At_command ''start_memory_profile'') b" for b by simp
  from one_reply_per_request [OF a(2,3,4) e(1,2) c this e(3,4)] a(1) show ?thesis by auto
qed

text \<open>
  Claim C25. An empty request is never answered. When the request received is empty (or
  starts with a NUL), the whole pass of the loop back to its top has received one message
  on the response socket and sent none, so the socket stays in the state in which it
  accepts no further request.
\<close>

theorem empty_request_unanswered:
  assumes "app_reachable enc a" and "\<not> iv_stop_profiler_thread (inst a)" and "iv_request_port (inst a) \<noteq> 0"
    and "env_revents e \<noteq> 0" and "env_frame e = Some f" and "f = [] \<or> hd f = CHR 0x00"
    and "env_stats e = Inr data" and room: "iv_enable_gc_stats (inst a) \<longrightarrow> hash_room enc (env_host e) data
      (log_zmq (Zmq_msg_recv (zmq_response_socket (native a))) (native a))"
  shows "\<exists>a'. dispatch_pass 4 e At_top a = Inr (At_top, a')
    \<and> zmq_log (native a') = zmq_log (native a) @ [Zmq_msg_recv (zmq_response_socket (native a))]
    \<and> responded (native a') = responded (native a)"
proof -
  from app_reachable_ok [OF assms(1)] have l: "linked enc (inst a) (native a)" by (simp add: app_ok_def)
  let ?s = "log_zmq (Zmq_msg_recv (zmq_response_socket (native a))) (native a)"
  let ?a = "a\<lparr>native := ?s\<rparr>"
  have "c_str (f @ [CHR 0x00]) = ''''" using assms(6) by (cases f) (auto simp: c_str_def)
  then have poll: "poll_for_request (env_revents e) (env_frame e) (native a) = Inr (Some '''', ?s)"
    using assms(4,5) by (simp add: poll_for_request_def tracer_string_recv_def)
  from l have "reachable enc ?s" by (auto simp: linked_def intro: reach_poll [OF _ poll])
  with linked_native [OF l] have ls: "linked enc (inst ?a) (native ?a)"
    by (simp add: keeps_mode_logger log_zmq_def)
  obtain a1 where a1: "dispatch_step e At_gc_timer ?a = Inr (At_dispatch_timer, a1)"
    "io_view (native a1) = io_view ?s"
  proof (cases "iv_enable_gc_stats (inst a) \<and> timer_due (env_now e) (iv_gc_stats_timer (inst a))")
    case True
    with room gc_stats_ok [OF ls assms(7)] obtain s where
      "gc_stats_block e ?a = Inr (Returned (), ?a\<lparr>native := s\<rparr>)" "io_view s = io_view ?s" by auto
    with True that show ?thesis by (simp add: go_on_def)
  next
    case False
    with that [of ?a] show ?thesis by auto
  qed
  obtain a2 where a2: "dispatch_step e At_dispatch_timer a1 = Inr (At_top, a2)"
    "io_view (native a2) = io_view (native a1)"
    by (cases "timer_due (env_now e) (iv_message_dispatch_timer (inst a1))")
      (auto simp: io_view_def send_messages_def)
  have "dispatch_pass 4 e At_top a = Inr (At_top, a2)"
    using assms(2,3) poll a1(1) a2(1) by (simp add: numeral_eq_Suc del: dispatch_step.simps(6,7))
  moreover have "io_view (native a2) = io_view ?s" using a1(2) a2(2) by simp
  ultimately show ?thesis by (auto simp: io_view_def log_zmq_def)
qed

theorem empty_request_unanswered_witness:
  "\<exists>a a'. start example_zmq no_options (new_app example_instance server_init) = Inr (Returned True, a)
    \<and> dispatch_pass 4 (example_env\<lparr>env_frame := Some ''''\<rparr>) At_top a = Inr (At_top, a')
    \<and> zmq_log (native a') = zmq_log (native a) @ [Zmq_msg_recv (Some 3)]"
proof -
  let ?e = "example_env\<lparr>env_frame := Some ''''\<rparr>"
  from example_started [OF options_ok_examples(1)] obtain a where
    a: "start example_zmq no_options (new_app example_instance server_init) = Inr (Returned True, a)"
      "app_reachable ref_enc a" "\<not> iv_stop_profiler_thread (inst a)" "iv_request_port (inst a) \<noteq> 0"
      "zmq_response_socket (native a) = Some 3" "\<not> iv_enable_gc_stats (inst a)"
    by (auto simp: no_options_def)
  have e: "env_revents ?e \<noteq> 0" "env_frame ?e = Some ''''" by (simp_all add: example_env_def)
  have s: "env_stats ?e = Inr []" by (simp add: example_env_def)
  from empty_request_unanswered [OF a(2,3,4) e _ s] a(1,5,6) show ?thesis by auto
qed


section \<open>What the class does not guard against\<close>

text \<open>
  Claim C24. A stop between the test of \<open>process_incoming_request\<close> and the call it guards
  crashes the process. In every state where a dispatch thread has found the server running
  and is about to run one of these commands, a stop by another thread succeeds, and the
  command then dereferences the logger that is gone.
\<close>

theorem stop_between_test_and_command:
  assumes "app_reachable enc a" and i: "i < length (dispatchers a)"
    and pc: "dispatchers a ! i = At_command cmd"
    and cmd: "cmd \<in> {''start_memory_profile'', ''stop_memory_profile'', ''objectspace_snapshot'',
      ''start_cpu_profiling''}"
  shows "\<exists>a'. stop a = Inr (Returned True, a') \<and> dispatch i e a' = Inl Null_dereference"
proof -
  from app_reachable_ok [OF assms(1)] have l: "linked enc (inst a) (native a)" by (simp add: app_ok_def)
  from i pc have "At_command cmd \<in> set (dispatchers a)" by (metis nth_mem)
  with app_reachable_ok [OF assms(1)] have run: "iv_server_running (inst a)" by (auto simp: app_ok_def)
  from stop_app_ok [OF l run] obtain a' where a': "stop a = Inr (Returned True, a')"
    "dispatchers a' = dispatchers a" "logger (native a') = None" by blast
  have crash: "the_logger (native a') = Inl Null_dereference" using a'(3) by (simp add: the_logger_def)
  from cmd have "process_command e cmd a' = Inl Null_dereference"
    by (auto simp: process_command_def native_call_def start_cpu_profiling_def set_inst_def
      start_stat_tracing_def stop_stat_tracing_def send_objectspace_dump_def start_sampling_profiler_def crash
      ruby_then_def)
  with a' pc show ?thesis by (simp add: dispatch_def go_on_def)
qed

text \<open>The thread has received the request and tested that the server runs.\<close>

theorem stop_between_test_and_command_witness:
  "\<exists>a a1 a2 a3 a4. start example_zmq no_options (new_app example_instance server_init) = Inr (Returned True, a)
    \<and> dispatch 0 example_env a = Inr a1 \<and> dispatch 0 example_env a1 = Inr a2
    \<and> dispatch 0 example_env a2 = Inr a3 \<and> stop a3 = Inr (Returned True, a4)
    \<and> dispatch 0 example_env a4 = Inl Null_dereference"
proof -
  let ?cmd = "''start_memory_profile''"
  from example_started [OF options_ok_examples(1)] obtain a where
    a: "start example_zmq no_options (new_app example_instance server_init) = Inr (Returned True, a)"
      "app_reachable ref_enc a" "\<not> iv_stop_profiler_thread (inst a)" "iv_request_port (inst a) \<noteq> 0"
      "iv_server_running (inst a)" "dispatchers a = [At_top]" by blast
  have c: "c_str (?cmd @ [CHR 0x00]) = ?cmd" by (simp add: c_str_def)
  let ?a1 = "a\<lparr>dispatchers := [At_poll]\<rparr>"
  have d1: "dispatch 0 example_env a = Inr ?a1" using a by (simp add: dispatch_def)
  then have r1: "app_reachable ref_enc ?a1"
    by (rule app_dispatch [OF a(2), rotated 2]) (simp_all add: a)
  let ?a2 = "a\<lparr>native := log_zmq (Zmq_msg_recv (zmq_response_socket (native a))) (native a),
      dispatchers := [At_request ?cmd]\<rparr>"
  have d2: "dispatch 0 example_env ?a1 = Inr ?a2"
    using c by (simp add: dispatch_def poll_for_request_def tracer_string_recv_def example_env_def)
  then have r2: "app_reachable ref_enc ?a2"
    by (rule app_dispatch [OF r1, rotated 2]) (simp_all add: example_env_def)
  let ?a3 = "?a2\<lparr>dispatchers := [At_command ?cmd]\<rparr>"
  have d3: "dispatch 0 example_env ?a2 = Inr ?a3" using a(5) by (simp add: dispatch_def)
  then have r3: "app_reachable ref_enc ?a3"
    by (rule app_dispatch [OF r2, rotated 2]) simp_all
  from stop_between_test_and_command [OF r3, of 0 ?cmd example_env] obtain a4 where
    "stop ?a3 = Inr (Returned True, a4)" "dispatch 0 example_env a4 = Inl Null_dereference" by auto
  with a(1) d1 d2 d3 show ?thesis by blast
qed


text \<open>
  Claim C26. A start that raises leaves the C server running without an owner. When the
  ports fit the endpoint buffers and bind and CPU profiling is asked for with a clock type that is not a symbol, the
  call raises ArgumentError after the C server was started: the instance says it does not
  run, no thread serves it, and a stop returns false and changes nothing.
\<close>

theorem raising_start_leaves_server:
  assumes "app_reachable enc a" and "calm a" and n: "\<not> iv_server_running (inst a)" and z: "binds z"
    and ports: "\<not> long_ports z (iv_pub_port (inst a)) (iv_request_port (inst a))"
    and opts: "enable_cpu_profiling opts" "truthy (opt_clock_type opts)" "\<not> clock_ok (opt_clock_type opts)"
  shows "\<exists>a'. start z opts a = Inr (Raised (Some ArgumentError), a')
    \<and> logger (native a') \<noteq> None \<and> \<not> iv_server_running (inst a') \<and> dispatchers a' = dispatchers a
    \<and> stop a' = Inr (Returned False, a')"
proof -
  note l = app_ok_calls [OF app_reachable_ok [OF assms(1)] assms(2)]
  from bind_ok [OF l(1) n ports] z obtain s where
    b: "bind_server z a = Inr (True, a\<lparr>native := s\<rparr>)" "reachable enc s" "\<not> sampling_on s"
      "logger s \<noteq> None" by auto
  obtain s1 where s1: "(if enable_object_trace opts then native_call start_stat_tracing (a\<lparr>native := s\<rparr>)
        else Inr (Returned (), a\<lparr>native := s\<rparr>)) = Inr (Returned (), a\<lparr>native := s1\<rparr>)"
      "logger s1 \<noteq> None" "\<not> sampling_on s1"
    using trace_on_ok [OF b(2,4)] b(3,4)
    by (cases "enable_object_trace opts") (fastforce simp: native_call_def keeps_mode_def)+
  let ?a = "set_inst (\<lambda>i. i\<lparr>iv_cpu_profiling_mode := sampling\<rparr>)
    (set_inst (start_options_of opts) (a\<lparr>native := s1\<rparr>))"
  from s1(2,3) obtain lg where lg: "logger s1 = Some lg" "\<not> lg_sampling_profiler_enabled lg"
    by (auto simp: sampling_on_def)
  have "iv_clock_type (inst ?a) = opt_clock_type opts"
    using opts(2) by (simp add: start_options_of_def given_def)
  with lg opts(3) have "start_cpu_profiling sampling (iv_clock_type (inst ?a)) interval
      (set_inst (start_options_of opts) (a\<lparr>native := s1\<rparr>)) = Inr (Raised (Some ArgumentError), ?a)" for interval
    by (simp add: start_cpu_profiling_def native_call_def start_sampling_profiler_def the_logger_def clock_ok_def
      Let_def)
  then have "start z opts a = Inr (Raised (Some ArgumentError), ?a)"
    using n b(1) s1(1) opts(1) by (simp add: start_def Let_def ruby_then_def)
  moreover have "stop ?a = Inr (Returned False, ?a)"
    using n by (simp add: stop_def start_options_of_def)
  ultimately show ?thesis using s1(2) n by (simp add: start_options_of_def)
qed

theorem raising_start_leaves_server_witness:
  "\<exists>a'. start example_zmq (profiling_options\<lparr>opt_clock_type := Rb_object\<rparr>) (new_app example_instance server_init)
      = Inr (Raised (Some ArgumentError), a')
    \<and> logger (native a') \<noteq> None \<and> stop a' = Inr (Returned False, a')"
proof -
  let ?opts = "profiling_options\<lparr>opt_clock_type := Rb_object\<rparr>"
  have "\<not> iv_server_running (inst (new_app example_instance server_init))"
    by (simp add: new_app_def example_instance_def)
  moreover have "\<not> overflowing example_zmq (inst (new_app example_instance server_init))"
    by (simp add: long_ports_def new_app_def example_instance_def)
  ultimately show ?thesis
    using raising_start_leaves_server [OF example_new example_calm _ example_binds, of ?opts]
    by (auto simp: profiling_options_def truthy_def clock_ok_def)
qed

text \<open>
  Claim C27. An instance that was stopped never serves again. The flag that ends its
  dispatch thread is not reset: a start after the stop succeeds and says it runs, but the
  thread of that start ends at its first step, so no request is read and no message sent
  by the timer.
\<close>

theorem restarted_instance_deaf:
  assumes "app_reachable enc a" and "calm a" and "iv_server_running (inst a)"
    and "binds z" and "options_ok opts"
  shows "\<exists>a1 a2. stop a = Inr (Returned True, a1) \<and> start z opts a1 = Inr (Returned True, a2)
    \<and> iv_server_running (inst a2) \<and> logger (native a2) \<noteq> None
    \<and> dispatchers a2 = dispatchers a1 @ [At_top]
    \<and> dispatch_step e At_top a2 = Inr (Finished, a2)"
proof -
  note l = app_ok_calls [OF app_reachable_ok [OF assms(1)] assms(2)]
  from stop_app_ok [OF l(1) assms(3)] obtain a1 where a1: "stop a = Inr (Returned True, a1)"
    "linked enc (inst a1) (native a1)" "\<not> iv_server_running (inst a1)"
    "iv_pub_port (inst a1) = iv_pub_port (inst a) \<and> iv_request_port (inst a1) = iv_request_port (inst a)"
    "iv_stop_profiler_thread (inst a1)" by blast
  have "\<not> overflowing z (inst a1)" using l(1) assms(3) a1(4) by (simp add: linked_def long_ports_def)
  from start_ok [OF a1(2,3) assms(5) this] assms(4) obtain a2 where
    a2: "start z opts a1 = Inr (Returned True, a2)" "linked enc (inst a2) (native a2)"
      "dispatchers a2 = dispatchers a1 @ [At_top]" "iv_server_running (inst a2)"
      "iv_stop_profiler_thread (inst a2) = iv_stop_profiler_thread (inst a1)" by auto
  then show ?thesis using a1 by (auto simp: linked_def)
qed

theorem restarted_instance_deaf_witness:
  "\<exists>a a1 a2. start example_zmq no_options (new_app example_instance server_init) = Inr (Returned True, a)
    \<and> stop a = Inr (Returned True, a1) \<and> start example_zmq no_options a1 = Inr (Returned True, a2)
    \<and> dispatch_step example_env At_top a2 = Inr (Finished, a2)"
proof -
  from example_started [OF options_ok_examples(1)] obtain a where
    a: "start example_zmq no_options (new_app example_instance server_init) = Inr (Returned True, a)"
      "app_reachable ref_enc a" "calm a" "iv_server_running (inst a)" by blast
  from restarted_instance_deaf [OF a(2,3,4) example_binds options_ok_examples(1)] a(1) show ?thesis by blast
qed

text \<open>
  Claim C28. Another profiling mode hides the timer from the stop. When the CPU profiler
  samples and the application calls \<open>start_cpu_profiling\<close> with a mode other than
  sampling, the stop no longer stops the profiler: the interval timer goes on after the
  C server is gone, and its sampling job has no logger to queue into.
\<close>

theorem other_mode_keeps_timer:
  assumes "app_reachable enc a" and "calm a" and "iv_server_running (inst a)"
    and "mode \<noteq> sampling"
  shows "\<exists>a1 a2. start_cpu_profiling mode clock interval a = Inr (Returned (), a1)
    \<and> stop a1 = Inr (Returned True, a2) \<and> logger (native a2) = None
    \<and> cpu_profiler (native a2) = cpu_profiler (native a)
    \<and> \<not> returns (sampling_job_handler h frames tid (native a2))"
proof -
  note l = app_ok_calls [OF app_reachable_ok [OF assms(1)] assms(2)]
  let ?a1 = "set_inst (\<lambda>i. i\<lparr>iv_cpu_profiling_mode := mode\<rparr>) a"
  let ?a = "set_inst (\<lambda>i. i\<lparr>iv_stop_profiler_thread := True\<rparr>) ?a1"
  from l(1) assms(3) have "reachable enc (native a)" "logger (native a) \<noteq> None" by (simp_all add: linked_def)
  then obtain vs lg where r: "running enc vs lg (native a)" by (rule reachable_running)
  from stop_stat_server_running [OF r] obtain s where s: "stop_stat_server (native a) = Inr s" "stopped s"
    "cpu_profiler s = cpu_profiler (native a)" by blast
  let ?a2 = "set_inst (\<lambda>i. i\<lparr>iv_server_running := False\<rparr>) (?a\<lparr>native := s\<rparr>)"
  have "start_cpu_profiling mode clock interval a = Inr (Returned (), ?a1)"
    using assms(4) by (simp add: start_cpu_profiling_def)
  moreover have "stop ?a1 = Inr (Returned True, ?a2)"
    using assms(3,4) s(1) by (simp add: stop_def stop_cpu_profiling_def native_call_def)
  moreover from sampling_job_stopped [OF s(2)] have "\<not> returns (sampling_job_handler h frames tid s)"
    by (metis returns_Inl)
  ultimately show ?thesis using s by (auto simp: stopped_def)
qed

theorem other_mode_keeps_timer_witness:
  "\<exists>a a1 a2. start example_zmq profiling_options (new_app example_instance server_init) = Inr (Returned True, a)
    \<and> start_cpu_profiling (Rb_symbol ''tracing'') Rb_nil Rb_nil a = Inr (Returned (), a1)
    \<and> stop a1 = Inr (Returned True, a2) \<and> logger (native a2) = None
    \<and> cpu_profiler (native a2) = cpu_profiler (native a)"
proof -
  from example_started [OF options_ok_examples(2)] obtain a where
    a: "start example_zmq profiling_options (new_app example_instance server_init) = Inr (Returned True, a)"
      "app_reachable ref_enc a" "calm a" "iv_server_running (inst a)" by blast
  have "Rb_symbol ''tracing'' \<noteq> sampling" by (simp add: sampling_def)
  from other_mode_keeps_timer [OF a(2-4) this, of Rb_nil Rb_nil] a(1) show ?thesis by blast
qed

text \<open>
  Claim C34. While the profiler samples, the status can name a clock that is not in use.
  A client that asks for the wall clock and then for CPU profiling changes nothing on a
  server that already samples, and yet the status reports the wall clock.
\<close>

theorem clock_request_not_applied:
  assumes "app_reachable enc a" and "iv_server_running (inst a)" and "sampling_on (native a)"
  shows "\<exists>a1 a2. process_command e ''use_wall_time'' a = Inr (Returned (), a1)
    \<and> process_command e ''start_cpu_profiling'' a1 = Inr (Returned (), a2)
    \<and> cpu_profiler (native a2) = cpu_profiler (native a)
    \<and> map_of (rbkit_status_as_hash (status_process e (inst a2)) (native a2)) (T_OBJECT ''clock_type'')
        = Some (T_OBJECT ''wall'')"
proof -
  from app_reachable_ok [OF assms(1)] have l: "linked enc (inst a) (native a)" by (simp add: app_ok_def)
  let ?a1 = "set_inst (\<lambda>i. i\<lparr>iv_clock_type := Rb_symbol ''wall''\<rparr>) a"
  let ?a2 = "set_inst (\<lambda>i. i\<lparr>iv_cpu_profiling_mode := sampling\<rparr>) ?a1"
  from assms(3) obtain lg where lg: "logger (native a) = Some lg" "lg_sampling_profiler_enabled lg"
    by (auto simp: sampling_on_def)
  have "process_command e ''use_wall_time'' a = Inr (Returned (), ?a1)" by (simp add: process_command_def)
  moreover have "process_command e ''start_cpu_profiling'' ?a1 = Inr (Returned (), ?a2)"
    using lg by (simp add: process_command_def start_cpu_profiling_def native_call_def
      start_sampling_profiler_def the_logger_def set_inst_def)
  moreover have "map_of (rbkit_status_as_hash (status_process e (inst ?a2)) (native ?a2)) (T_OBJECT ''clock_type'')
      = Some (T_OBJECT ''wall'')"
    by (simp add: rbkit_status_as_hash_def status_process_def value_to_s_def Let_def)
  ultimately show ?thesis by force
qed


theorem clock_request_not_applied_witness:
  "\<exists>a a1 a2. start example_zmq (profiling_options\<lparr>opt_clock_type := Rb_symbol ''cpu''\<rparr>)
        (new_app example_instance server_init) = Inr (Returned True, a)
    \<and> process_command example_env ''use_wall_time'' a = Inr (Returned (), a1)
    \<and> process_command example_env ''start_cpu_profiling'' a1 = Inr (Returned (), a2)
    \<and> cpu_profiler (native a2) = cpu_profiler (native a)"
proof -
  let ?opts = "profiling_options\<lparr>opt_clock_type := Rb_symbol ''cpu''\<rparr>"
  have "options_ok ?opts" "enable_cpu_profiling ?opts"
    by (simp_all add: options_ok_def profiling_options_def clock_ok_def interval_ok_def FIX2INT_def truthy_def)
  with example_started [of ?opts] obtain a where
    a: "start example_zmq ?opts (new_app example_instance server_init) = Inr (Returned True, a)"
      "app_reachable ref_enc a" "iv_server_running (inst a)" "sampling_on (native a)" by blast
  from clock_request_not_applied [OF a(2-4), of example_env] a(1) show ?thesis by blast
qed

section \<open>The module\<close>

text \<open>
  Claim C17. The public cycle. With no server object, \<open>Rbkit.start_profiling\<close> with options of
  the right types, on accepted ports of at most four digits that bind, makes a new one that
  runs and whose dispatch thread is alive. Then \<open>start_server\<close> on any ports and
  \<open>start_profiling\<close> on any ports with any options return false and change nothing;
  \<open>Rbkit.stop_server\<close> returns true, drops the object and leaves the C server stopped and
  ready for the next start.
\<close>

theorem start_stop_cycle:
  assumes "module_server m = None" and "reachable enc (module_native m)" and "logger (module_native m) = None"
    and "binds z" and "options_ok opts"
    and "validate_port_range p" "p < 10000" and "validate_port_range q" "q < 10000"
  shows "\<exists>m1 m2 i. start_profiling now z opts p q m = Inr (Returned True, m1)
    \<and> module_server m1 = Some i \<and> iv_server_running i \<and> \<not> iv_stop_profiler_thread i
    \<and> logger (module_native m1) \<noteq> None
    \<and> (\<forall>now' z' p' q'. start_server now' z' p' q' m1 = Inr (Returned False, m1))
    \<and> (\<forall>now' z' opts' p' q'. start_profiling now' z' opts' p' q' m1 = Inr (Returned False, m1))
    \<and> stop_server m1 = Inr (Returned True, m2) \<and> module_server m2 = None
    \<and> reachable enc (module_native m2) \<and> logger (module_native m2) = None"
proof -
  obtain i0 where i0: "initialize now p q = Inr i0" using assms(6,8) by (simp add: initialize_def)
  then have f: "\<not> iv_server_running i0" "\<not> iv_stop_profiler_thread i0"
    by (auto simp: initialize_def split: if_splits)
  let ?a0 = "new_app i0 (module_native m)" and ?opts = "opts\<lparr>opt_cpu_profiling_mode := Rb_nil\<rparr>"
  have "linked enc (inst ?a0) (native ?a0)"
    using i0 assms(2,3) reach_callback [OF assms(2)]
    by (auto simp: initialize_def new_app_def linked_def clock_ok_def interval_ok_def FIX2INT_def sampling_on_def
      validate_port_range_valid split: if_splits)
  moreover have "\<not> iv_server_running (inst ?a0)" "dispatchers ?a0 = []" using f by (simp_all add: new_app_def)
  moreover have "options_ok ?opts" using assms(5) by (simp add: options_ok_def)
  moreover have "\<not> overflowing z (inst ?a0)"
    using initialize_ports [OF i0] assms(7,9) by (simp add: new_app_def long_ports_def)
  ultimately obtain a1 where a1: "start z ?opts ?a0 = Inr (Returned True, a1)"
    "linked enc (inst a1) (native a1)" "iv_server_running (inst a1)"
    "iv_stop_profiler_thread (inst a1) = iv_stop_profiler_thread (inst ?a0)"
    using start_ok [of enc ?a0 ?opts z] assms(4) by auto
  let ?m1 = "\<lparr>module_server = Some (inst a1), module_native = native a1\<rparr>"
  let ?b = "\<lparr>inst = inst a1, native = native a1, dispatchers = []\<rparr>"
  have "start_profiling now z opts p q m = Inr (Returned True, ?m1)"
    using assms(1) i0 a1(1) by (simp add: start_profiling_def start_module_def)
  moreover have "start_module now' z' opts' p' q' ?m1 = Inr (Returned False, ?m1)" for now' z' opts' p' q'
    using a1(3) by (simp add: start_module_def start_def)
  then have "\<forall>now' z' p' q'. start_server now' z' p' q' ?m1 = Inr (Returned False, ?m1)"
    "\<forall>now' z' opts' p' q'. start_profiling now' z' opts' p' q' ?m1 = Inr (Returned False, ?m1)"
    by (simp_all add: start_server_def start_profiling_def)
  moreover from stop_app_ok [of enc ?b] a1(2,3) obtain a2 where
    a2: "stop ?b = Inr (Returned True, a2)" "linked enc (inst a2) (native a2)" "logger (native a2) = None" by auto
  then have "stop_server ?m1 = Inr (Returned True, \<lparr>module_server = None, module_native = native a2\<rparr>)"
    by (simp add: stop_server_def)
  moreover have "logger (native a1) \<noteq> None" "\<not> iv_stop_profiler_thread (inst a1)"
    using a1(2,3,4) f by (simp_all add: linked_def new_app_def)
  moreover have "reachable enc (native a2)" using a2(2) by (simp add: linked_def)
  ultimately show ?thesis using a1(3) a2(3)
    by (intro exI [of _ ?m1] exI [of _ "\<lparr>module_server = None, module_native = native a2\<rparr>"]
      exI [of _ "inst a1"]) simp
qed

theorem start_stop_cycle_witness:
  "\<exists>m1 m2. start_profiling 0 example_zmq profiling_options 5555 5556
        \<lparr>module_server = None, module_native = server_init\<rparr> = Inr (Returned True, m1)
    \<and> start_server 9 example_zmq 7000 7001 m1 = Inr (Returned False, m1)
    \<and> stop_server m1 = Inr (Returned True, m2) \<and> module_server m2 = None"
proof -
  let ?m = "\<lparr>module_server = None, module_native = server_init\<rparr>"
  have "module_server ?m = None" "reachable ref_enc (module_native ?m)" "logger (module_native ?m) = None"
    using reach_init by (simp_all add: server_init_def)
  from start_stop_cycle [OF this example_binds options_ok_examples(2), of 5555 5556 0]
  show ?thesis by (simp add: validate_port_range_def) blast
qed

text \<open>An instance whose publisher port is busy.\<close>

lemma start_busy:
  assumes ports: "validate_port_range (iv_pub_port (inst a))" "iv_pub_port (inst a) < 10000"
      "iv_pub_port (inst a) \<noteq> 0" "validate_port_range (iv_request_port (inst a))"
    and n: "\<not> iv_server_running (inst a)"
    and busy: "\<not> bind_succeeds z ZMQ_PUB (endpoint (of_int (iv_pub_port (inst a))))"
  shows "\<exists>s. start z opts a = Inr (Returned False, a\<lparr>native := s\<rparr>)"
proof -
  let ?p = "iv_pub_port (inst a)" and ?q = "iv_request_port (inst a)"
  from valid_port_FIX2INT ports have p': "FIX2INT (Some ?p) = Inr (of_int ?p)" "sint (of_int ?p :: c_int) = ?p"
    and q': "FIX2INT (Some ?q) = Inr (of_int ?q)" by (simp_all add: validate_port_range_valid)
  have sp: "short_port (of_int ?p)" using ports p'(2) by (auto simp: short_port_def validate_port_range_def)
  have "(of_int ?p :: c_int) \<noteq> 0" using p'(2) ports(3) by (metis signed_eq_0_iff)
  with open_publisher_short [OF sp] busy obtain s where
    "start_stat_server z (Some ?p) (Some ?q) (native a) = Inr (False, s)"
    using p' q' VALUE_of_nonzero by (simp add: start_stat_server_def Let_def)
  then have "start z opts a = Inr (Returned False, a\<lparr>native := s\<rparr>)" using n by (simp add: start_def bind_server_def)
  then show ?thesis by blast
qed

text \<open>
  Claim C38. A port that is taken cannot be left. When the first start fails because the
  publisher's port, of at most four digits, does not bind, the server object stays and
  does not run. The next \<open>Rbkit.start_server\<close> does with any ports what it would do with those
  of the first call: while the first port stays busy it fails again, even if the ports it is
  given are free.
\<close>

theorem failed_start_keeps_ports:
  assumes "module_server m = None"
    and p: "validate_port_range p" "p < 10000" "p \<noteq> 0" and q: "validate_port_range q"
    and busy: "\<not> bind_succeeds z ZMQ_PUB (endpoint (of_int p))"
  shows "\<exists>m1 i. start_server now z p q m = Inr (Returned False, m1)
    \<and> module_server m1 = Some i \<and> iv_pub_port i = p \<and> iv_request_port i = q \<and> \<not> iv_server_running i
    \<and> (\<forall>now' z' p' q'. start_server now' z' p' q' m1 = start_server now' z' p q m1)
    \<and> (\<forall>now' z' p' q'. \<not> bind_succeeds z' ZMQ_PUB (endpoint (of_int p)) \<longrightarrow>
        (\<exists>m2. start_server now' z' p' q' m1 = Inr (Returned False, m2) \<and> module_server m2 = Some i))"
proof -
  obtain i where i: "initialize now p q = Inr i" and f: "iv_pub_port i = p" "iv_request_port i = q"
    "\<not> iv_server_running i"
    using p(1) q by (simp add: initialize_def)
  have fails: "\<exists>s. start z opts a = Inr (Returned False, a\<lparr>native := s\<rparr>)"
    if "inst a = i" "\<not> bind_succeeds z ZMQ_PUB (endpoint (of_int p))" for z opts a
    using start_busy [of a z opts] that f p q by simp
  have "inst (new_app i (module_native m)) = i" by (simp add: new_app_def)
  from fails [OF this busy, of no_options] obtain s1 where
    "start z no_options (new_app i (module_native m)) = Inr (Returned False, (new_app i (module_native m))\<lparr>native := s1\<rparr>)"
    by blast
  with assms(1) i have "start_server now z p q m = Inr (Returned False, \<lparr>module_server = Some i, module_native = s1\<rparr>)"
    by (simp add: start_server_def start_module_def new_app_def)
  moreover have "\<exists>m2. start_server now' z' p' q' \<lparr>module_server = Some i, module_native = s1\<rparr> = Inr (Returned False, m2)
      \<and> module_server m2 = Some i" if "\<not> bind_succeeds z' ZMQ_PUB (endpoint (of_int p))" for now' z' p' q'
    using fails [OF _ that, of "\<lparr>inst = i, native = s1, dispatchers = []\<rparr>" no_options]
    by (auto simp: start_server_def start_module_def)
  moreover have "start_server now' z' p' q' \<lparr>module_server = Some i, module_native = s1\<rparr>
      = start_server now' z' p q \<lparr>module_server = Some i, module_native = s1\<rparr>" for now' z' p' q'
    by (simp add: start_server_def start_module_def)
  ultimately show ?thesis using f by (intro exI conjI) auto
qed

text \<open>A system on which port 5555 is taken and every other is free.\<close>

theorem failed_start_keeps_ports_witness:
  "\<exists>m1 m2 i. start_server 0 (example_zmq\<lparr>bind_succeeds := (\<lambda>_ e. e \<noteq> endpoint 5555)\<rparr>) 5555 5556
        \<lparr>module_server = None, module_native = server_init\<rparr> = Inr (Returned False, m1)
    \<and> module_server m1 = Some i \<and> iv_pub_port i = 5555
    \<and> start_server 9 (example_zmq\<lparr>bind_succeeds := (\<lambda>_ e. e \<noteq> endpoint 5555)\<rparr>) 7000 7001 m1
        = Inr (Returned False, m2)"
proof -
  let ?z = "example_zmq\<lparr>bind_succeeds := (\<lambda>_ e. e \<noteq> endpoint 5555)\<rparr>"
    and ?m = "\<lparr>module_server = None, module_native = server_init\<rparr>"
  have "module_server ?m = None" "validate_port_range 5555" "(5555 :: int) < 10000" "(5555 :: int) \<noteq> 0"
    "validate_port_range 5556" and z: "\<not> bind_succeeds ?z ZMQ_PUB (endpoint (of_int 5555))"
    by (simp_all add: validate_port_range_def)
  from failed_start_keeps_ports [OF this, of 0] z show ?thesis by blast
qed

end
