(* ===== verification/Extension_Init.thy ===== *)
theory Extension_Init
  imports Ruby_Server
begin

text \<open>
  \<open>Init_rbkit_server\<close> in \<open>ext/rbkit_server.c\<close> and \<open>Init_rbkit_test_helper\<close> in
  \<open>ext/rbkit_test_helper.c\<close>: the constants and methods the extension gives to Ruby, as
  tables of names, and what Ruby finds in them.
\<close>

section \<open>What Ruby sees of the extension\<close>

text \<open>
  The C function behind a method by its name, and the arguments it takes: a fixed number,
  or (arity -1) what \<open>rb_scan_args\<close> checks, the required and the optional ones.
\<close>

datatype ruby_const = Numbers "(string \<times> c_int) list" | Text string

datatype arity = Fixed nat | Scanned nat nat

record namespace =
  constants :: "(string \<times> string) \<rightharpoonup> ruby_const"
  methods :: "(string \<times> string) \<rightharpoonup> string \<times> arity"

definition define_const :: "string \<Rightarrow> string \<Rightarrow> ruby_const \<Rightarrow> namespace \<Rightarrow> namespace" where
  "define_const m k v ns = ns\<lparr>constants := (constants ns)((m, k) \<mapsto> v)\<rparr>"

definition define_method :: "string \<Rightarrow> string \<Rightarrow> string \<Rightarrow> arity \<Rightarrow> namespace \<Rightarrow> namespace" where
  "define_method c n f a ns = ns\<lparr>methods := (methods ns)((c, n) \<mapsto> (f, a))\<rparr>"

text \<open>In the order of the source. \<open>status\<close> is the function \<open>rbkit_status_as_hash\<close>.\<close>

definition server_methods :: "(string \<times> string \<times> arity) list" where
  "server_methods =
     [(''start_stat_server'', ''start_stat_server'', Scanned 0 2),
      (''stop_stat_server'', ''stop_stat_server'', Fixed 0),
      (''start_stat_tracing'', ''start_stat_tracing'', Fixed 0),
      (''stop_stat_tracing'', ''stop_stat_tracing'', Fixed 0),
      (''start_sampling_profiler'', ''start_sampling_profiler'', Fixed 2),
      (''stop_sampling_profiler'', ''stop_sampling_profiler'', Fixed 0),
      (''poll_for_request'', ''poll_for_request'', Fixed 0),
      (''send_objectspace_dump'', ''send_objectspace_dump'', Fixed 0),
      (''send_hash_as_event'', ''send_hash_as_event'', Scanned 2 0),
      (''send_messages'', ''send_messages'', Fixed 0),
      (''status'', ''rbkit_status_as_hash'', Fixed 0),
      (''send_handshake_response'', ''send_handshake_response'', Fixed 0),
      (''send_command_ack'', ''send_command_ack'', Fixed 0)]"

definition Init_rbkit_server :: "namespace \<Rightarrow> namespace" where
  "Init_rbkit_server ns =
     (let ns = define_const ''Rbkit'' ''EVENT_TYPES'' (Numbers rbkit_event_types_as_hash) ns;
          ns = define_const ''Rbkit'' ''MESSAGE_FIELDS'' (Numbers rbkit_message_fields_as_hash) ns;
          ns = define_const ''Rbkit'' ''PROTOCOL_VERSION'' (Text rbkit_protocol_version) ns;
          ns = define_method ''Rbkit'' ''enable_test_mode'' ''enable_test_mode'' (Fixed 0) ns;
          ns = define_method ''Rbkit'' ''disable_test_mode'' ''disable_test_mode'' (Fixed 0) ns
      in fold (\<lambda>(n, f, a). define_method ''Rbkit::Server'' n f a) server_methods ns)"

definition Init_rbkit_test_helper :: "namespace \<Rightarrow> namespace" where
  "Init_rbkit_test_helper = define_method ''Rbkit::Server'' ''get_queued_messages'' ''get_queued_messages'' (Fixed 0)"

text \<open>Switching test mode on also defines the method of the test helper; switching it off keeps it.\<close>

definition enable_test_mode_in :: "namespace \<times> server \<Rightarrow> namespace \<times> server" where
  "enable_test_mode_in = (\<lambda>(ns, s). (Init_rbkit_test_helper ns, enable_test_mode s))"

definition disable_test_mode_in :: "namespace \<times> server \<Rightarrow> namespace \<times> server" where
  "disable_test_mode_in = (\<lambda>(ns, s). (ns, disable_test_mode s))"

section \<open>Lookups\<close>

lemma fold_methods:
  "distinct (map fst ms) \<Longrightarrow> methods (fold (\<lambda>(n, f, a). define_method c n f a) ms ns) (c', m)
     = (if c' = c \<and> m \<in> fst ` set ms then map_of ms m else methods ns (c', m))"
proof (induction ms arbitrary: ns)
  case (Cons x ms)
  obtain n f a where x: "x = (n, f, a)" by (cases x)
  with Cons.prems have d: "distinct (map fst ms)" "n \<notin> fst ` set ms" by simp_all
  show ?case
    using Cons.IH [OF d(1), of "define_method c n f a ns"] d(2) x
    by (auto simp: define_method_def map_of_eq_None_iff)
qed simp

lemma fold_constants: "constants (fold (\<lambda>(n, f, a). define_method c n f a) ms ns) = constants ns"
  by (induction ms arbitrary: ns) (auto simp: define_method_def)

text \<open>
  What a lookup finds after the initialisation: the tables of the protocol, the methods of
  \<open>server_methods\<close>, and everything that was there before.
\<close>

lemma Init_methods:
  "methods (Init_rbkit_server ns) (''Rbkit::Server'', m) =
     (case map_of server_methods m of None \<Rightarrow> methods ns (''Rbkit::Server'', m) | Some d \<Rightarrow> Some d)"
proof -
  have d: "distinct (map fst server_methods)" unfolding server_methods_def by code_simp
  show ?thesis
    unfolding Init_rbkit_server_def Let_def fold_methods [OF d]
    using map_of_eq_None_iff [of server_methods m]
    by (auto simp: define_const_def define_method_def split: option.splits)
qed

lemma Init_constants:
  "constants (Init_rbkit_server ns) (''Rbkit'', ''EVENT_TYPES'') = Some (Numbers rbkit_event_types_as_hash)"
  "constants (Init_rbkit_server ns) (''Rbkit'', ''MESSAGE_FIELDS'') = Some (Numbers rbkit_message_fields_as_hash)"
  "constants (Init_rbkit_server ns) (''Rbkit'', ''PROTOCOL_VERSION'') = Some (Text rbkit_protocol_version)"
  by (simp_all add: Init_rbkit_server_def Let_def fold_constants define_const_def define_method_def)

end
