(* ===== verification/Spec2Isabelle.thy ===== *)
theory Spec2Isabelle
  imports Ruby_Properties Extension_Init
begin

text \<open>
  Rbkit is a profiler for Ruby programs: a C extension (\<open>ext/\<close>) that watches allocations,
  garbage collections and the CPU of the process it lives in and sends what it sees as
  msgpack messages over ZeroMQ, and a Ruby class (\<open>lib/rbkit/\<close>) that starts and stops it and
  answers the requests of a client. This development models both and proves what makes
  them correct, and where they are not.

  The program. The VM calls tracepoint hooks, the kernel's interval timer sends signals
  that ask for a stack sample, the client asks for heap snapshots, the class takes the
  collector's statistics. Each of these becomes an event struct, is packed into bytes and
  queued in one growing block. A postponed job (asked for by the 400th message or by the
  class's timer) wraps the block in one message and publishes it. A dispatch thread of
  the class polls the response socket and runs one request at a time.

  The theories, in the order of their imports:

  \<^item> \<open>Rbkit_Prelude\<close>: C types as words, \<open>c_error\<close> (undefined behaviour, non-termination and
    Ruby exceptions as values) with its sequencing \<open>and_then\<close>, C strings, malloc'ed blocks
    and the lemmas all components share.
  \<^item> \<open>Time_Helper\<close> (\<open>rbkit_time_helper.c\<close>): the clock readings.
  \<^item> \<open>Msgpack_Model\<close>: the calls of the msgpack library; a codec is any encoder and decoder
    that keep the format's promise, and \<open>ref_codec\<close> is one.
  \<^item> \<open>Allocation_Info\<close> (\<open>rbkit_allocation_info.c\<close>): the table of shared strings with its
    counts and the table of allocated objects. Tracking refines a plain map; the string
    table holds exactly the strings in use.
  \<^item> \<open>Object_Graph\<close> (\<open>rbkit_object_graph.c\<close>): the walk over the heap and its pages of records.
    The snapshot is complete, ordered and ends.
  \<^item> \<open>Sampling_Profiler\<close> (\<open>rbkit_sampling_profiler.c\<close>): the kernel's two interval timers and
    what loads and stops them, signals, the sampling job, and the \<open>RBKIT_DEV\<close> build,
    which is shown equal to the release build.
  \<^item> \<open>Rbkit_Event\<close> (\<open>rbkit_event.c\<close>) and \<open>Event_Packer\<close> (\<open>rbkit_event_packer.c\<close>): the event structs
    and their packing, call by call; every event decodes to its frame, which is the one of
    \<open>docs/protocol.md\<close> but for a field of the snapshot's messages, and the numbers are those
    of its tables.
  \<^item> \<open>Message_Aggregator\<close> (\<open>rbkit_message_aggregator.c\<close>): the growing block with its statics.
    The interface of a queue is the locale \<open>message_queue\<close>, interpreted on the C functions;
    the block is shown equal to a plain list, message for message.
  \<^item> \<open>Rbkit_Server\<close> (\<open>rbkit_server.c\<close>, \<open>rbkit_test_helper.c\<close>): all of the server's statics, the
    VM's tracepoints and jobs and the log of library calls as one record \<open>server\<close>, with one
    definition per C function.
  \<^item> \<open>Server_Invariant\<close>, \<open>Server_Dump\<close>, \<open>Server_Reachable\<close>: the invariant of a running and of a
    stopped server, the batches of a snapshot, and the states \<open>reachable\<close> when the functions
    are called in the order the Ruby class calls them, with one preservation lemma for
    each rule (collection \<open>rbkit_inv\<close>).
  \<^item> \<open>Server_Properties\<close>: what a client gets of a tracing session, safety, timers, batches,
    the status, test mode, and the cases the C code does not handle.
  \<^item> \<open>Gc_Stats\<close> (\<open>rbkit_gc.rb\<close>): the collector's statistics, and the three exceptions they can
    end in.
  \<^item> \<open>Ruby_Server\<close> (\<open>server.rb\<close>, \<open>timer.rb\<close>, \<open>rbkit.rb\<close>): the instance variables, the methods, the
    dispatch thread with a program counter, and the functions of the module.
    \<open>Ruby_Safety\<close> links the instance variables to the C server (\<open>linked\<close>) and proves the link
    kept by every call and step; \<open>Ruby_Properties\<close> holds what follows.
  \<^item> \<open>Extension_Init\<close>: the constants and methods \<open>Init_rbkit_server\<close> registers.

  Below, the whole way of an event from the Ruby call to the wire.

  Parameters. What is not code of the repository is an argument: the answers of the VM about
  objects, frames and the heap (\<open>ruby_vm\<close>, \<open>profile_frame\<close>, \<open>ruby_heap\<close>), the results of
  ZeroMQ (\<open>zmq_results\<close>), the msgpack encoder, the clocks, the arithmetic of \<open>double\<close>, and
  the Ruby code that a callback runs.

  Bounds and loops. The doubling loop of the block and the loop over the batches of a
  snapshot are \<open>while_option\<close>, so that not ending is a value, and both are proved to end:
  the first while the queue stays within \<open>2 ^ 63\<close> bytes (the room premises), the second
  always. A pass of the dispatch loop has fuel; four steps reach the timers and seven the
  top of the loop. Strings are shorter than 2 GB, because the C code keeps their length
  in an \<open>int\<close>; ports have at most four digits wherever a start must succeed, because the
  endpoint buffer has 21 bytes: a start on a longer one that the class accepts is the crash
  \<open>Out_of_bounds\<close>, and the states of the Ruby layer include instances with such ports.

  Conditions of the Ruby layer. The states \<open>app_reachable\<close> are those of an application that
  calls while the dispatch threads are at the top of their loops, passes options of the
  right types and profiles in the sampling mode only. What happens otherwise has claims of
  its own: a stop between a test and its command, a start that raises, another mode.

  Events of a call itself. A Ruby object that C code allocates is, while tracing is on, an
  event that runs a hook of this very extension. Where that matters (the string of a
  publication, of a reply and of \<open>get_queued_messages\<close>) it is part of the Ruby code \<open>during\<close>
  the call; the objects of the status hash are events before it, which no event changes.

  Not modelled. Failing allocations and NULL results of ZeroMQ, which the C code does not
  test; the memory of the records and reference arrays beyond the strings (frees of the
  tables at a stop are the clearing of the tables); messages to stderr; sleeping and the
  \<open>at_exit\<close> handler, which is a call of \<open>stop\<close>; several server objects at a time (the module
  has one); the accessors that replace an instance's ports without the range check; the order of a thread switch inside a C function, which holds the VM's lock;
  the build (\<open>extconf.rb\<close>), the specs and the experiments.
\<close>

section \<open>A profiling session from the Ruby call to the wire\<close>

lemma start_tracing_native:
  assumes "\<not> iv_server_running (inst a)" and "enable_object_trace opts" and "\<not> enable_cpu_profiling opts"
    and "start z opts a = Inr (Returned True, a1)"
  shows "\<exists>s0. start_stat_server z (Some (iv_pub_port (inst a))) (Some (iv_request_port (inst a))) (native a)
      = Inr (True, s0) \<and> start_stat_tracing s0 = Inr (native a1)
    \<and> iv_server_running (inst a1) \<and> iv_message_dispatch_timer (inst a1) = iv_message_dispatch_timer (inst a)"
proof -
  from assms(1,4) obtain ok s0 where
    s0: "start_stat_server z (Some (iv_pub_port (inst a))) (Some (iv_request_port (inst a))) (native a) = Inr (ok, s0)"
    by (auto simp: start_def bind_server_def and_then_eq_Inr)
  with assms(1,4) have ok: "ok" by (auto simp: start_def bind_server_def split: if_splits)
  show ?thesis
  proof (cases "start_stat_tracing s0")
    case (Inl e)
    with assms s0 ok show ?thesis
      by (auto simp: start_def bind_server_def native_call_def ruby_then_def split: if_splits)
  next
    case (Inr s1)
    with assms s0 ok have "native a1 = s1 \<and> iv_server_running (inst a1)
        \<and> iv_message_dispatch_timer (inst a1) = iv_message_dispatch_timer (inst a)"
      by (auto simp: start_def bind_server_def native_call_def start_options_of_def Let_def)
    with s0 ok Inr show ?thesis by simp
  qed
qed

text \<open>A stop of a running server succeeds, whether the profiler samples or not.\<close>

lemma stop_running:
  assumes r: "running enc vs l (native a)" and "iv_server_running (inst a)"
  shows "\<exists>a'. stop a = Inr (Returned True, a')"
proof -
  let ?a = "set_inst (\<lambda>i. i\<lparr>iv_stop_profiler_thread := True\<rparr>) a"
  obtain s l' where s: "stop_cpu_profiling ?a = Inr (Returned (), ?a\<lparr>native := s\<rparr>)" "running enc vs l' s"
  proof (cases "iv_cpu_profiling_mode (inst a) = sampling \<and> lg_sampling_profiler_enabled l")
    case True
    let ?s = "set_sampling False ((native a)\<lparr>cpu_profiler := rbkit_uninstall_sampling_profiler (cpu_profiler (native a))\<rparr>)"
    from True running_logger [OF r] have "stop_cpu_profiling ?a = Inr (Returned (), ?a\<lparr>native := ?s\<rparr>)"
      by (simp add: stop_cpu_profiling_def native_call_def stop_sampling_profiler_def the_logger_def)
    with that set_sampling_running [OF r] show ?thesis by blast
  next
    case False
    with running_logger [OF r] have "stop_cpu_profiling ?a = Inr (Returned (), ?a\<lparr>native := native a\<rparr>)"
      by (auto simp: stop_cpu_profiling_def native_call_def stop_sampling_profiler_def the_logger_def set_inst_def)
    with that r show ?thesis by blast
  qed
  from stop_stat_server_running [OF s(2)] obtain s' where "stop_stat_server s = Inr s'" by blast
  with s(1) assms(2) show ?thesis by (simp add: stop_def native_call_def)
qed

text \<open>
  Claim C1. The whole way of an event. The application starts the server with object
  tracing; fewer than 400 events happen in the VM; the dispatch timer asks for a
  publication, and the VM runs the job. The message that goes out then decodes to exactly
  the frames of those events in order, under the next message counter; the queue is empty
  again, and a stop that follows succeeds.
\<close>

theorem session_end_to_end:
  assumes codec: "msgpack_codec enc dec"
    and a: "app_reachable enc a" "calm a" "\<not> iv_server_running (inst a)"
    and opts: "options_ok opts" "enable_object_trace opts" "\<not> enable_cpu_profiling opts"
    and start: "start z opts a = Inr (Returned True, a1)"
    and es: "vm_all_ok enc es" "es \<noteq> []" "length es < 400" "vm_bytes enc es \<le> 2 ^ 63"
    and jobs: "jobs (native a1) = []" "\<not> test_mode_enabled (native a1)" "0 < job_capacity (env_host e)"
    and h: "list_all (\<lambda>(h, ev). 0 < job_capacity h) es" "host_enc h = enc"
    and due: "timer_due (env_now e) (iv_message_dispatch_timer (inst a1))"
  shows "\<exists>s2 a3 s4 bytes. fire_all es (native a1) = Inr s2
    \<and> dispatch_step e At_dispatch_timer (a1\<lparr>native := s2\<rparr>) = Inr (At_top, a3)
    \<and> run_job h frames tid quiet (native a3) = Inr s4
    \<and> unpack dec bytes = Some (collection_value (host_clock h) (message_counter s2) (frames_of es))
    \<and> zmq_log s4 = zmq_log s2 @ (case zmq_publisher s2 of None \<Rightarrow> [] | Some k \<Rightarrow> [Zmq_send k bytes])
    \<and> queued_message_count (messages s4) = 0 \<and> jobs s4 = []
    \<and> (\<exists>a5. stop (a3\<lparr>native := s4\<rparr>) = Inr (Returned True, a5))"
proof -
  from app_reachable_ok [OF a(1)] have l: "linked enc (inst a) (native a)" by (simp add: app_ok_def)
  with a(3) have r: "reachable enc (native a)" "logger (native a) = None" by (simp_all add: linked_def)
  note st = reachable_stopped [OF r]
  from start_tracing_native [OF a(3) opts(2,3) start] obtain s0 where
    s0: "start_stat_server z (Some (iv_pub_port (inst a))) (Some (iv_request_port (inst a))) (native a) = Inr (True, s0)"
    and s1: "start_stat_tracing s0 = Inr (native a1)" and on: "iv_server_running (inst a1)" by blast
  from start_stat_server_result [OF st s0, of enc] obtain l0 where
    l0: "running enc [] l0 s0" "lg_object_table l0 = (\<lambda>_. None)" "queued_bytes s0 = 0" by auto
  from start_stat_tracing_running [OF l0(1)] s1 have r1: "running enc [] (l0\<lparr>lg_enabled := True\<rparr>) (native a1)"
    and fr1: "native a1 = s0\<lparr>tracepoints := tracepoints (native a1), logger := logger (native a1)\<rparr>" by auto
  have q1: "queued_bytes (native a1) = 0" by (subst fr1) (use l0(3) in \<open>simp add: queued_bytes_def\<close>)
  have v1: "card (dom (logger_view (l0\<lparr>lg_enabled := True\<rparr>))) + length es < 2 ^ 62"
    using l0(2) es(3) by (simp add: logger_view_def)
  have room: "queued_bytes (native a1) + vm_bytes enc es \<le> 2 ^ 63" using q1 es(4) by simp
  from fire_all_running [OF r1 _ es(1) v1 room] obtain s2 l2 where
    s2: "fire_all es (native a1) = Inr s2" "running enc (frames_of es) l2 s2"
    and fr2: "s2 = (native a1)\<lparr>logger := logger s2, messages := messages s2, jobs := jobs s2\<rparr>" by auto
  have j2: "jobs s2 = []"
    using fire_all_jobs [OF r1 _ es(1) v1 room jobs(2)] es(3) h(1) jobs(1) s2(1) by auto
  have t2: "\<not> test_mode_enabled s2" by (subst fr2) (use jobs(2) in simp)
  let ?s3 = "send_messages (env_host e) s2"
  have s3: "?s3 = s2\<lparr>jobs := [Publish_job]\<rparr>"
    using t2 j2 jobs(3) by (simp add: send_messages_def postponed_job_register_def)
  let ?a3 = "set_inst (\<lambda>i. i\<lparr>iv_message_dispatch_timer :=
      (iv_message_dispatch_timer i)\<lparr>last_fired_at := env_later e\<rparr>\<rparr>) (a1\<lparr>native := ?s3\<rparr>)"
  have d3: "dispatch_step e At_dispatch_timer (a1\<lparr>native := s2\<rparr>) = Inr (At_top, ?a3)"
    using due by (simp add: set_inst_def)
  let ?t = "s2\<lparr>jobs := []\<rparr>"
  have rt: "running enc (frames_of es) l2 ?t" using s2(2) running_cong [of ?t s2] by simp
  have m: "holds (host_enc h) (frames_of es) (messages ?t)" using rt h(2) by (simp add: running_def)
  have ne: "frames_of es \<noteq> []" "length (frames_of es) < 2 ^ 32" using es(2,3) by (simp_all add: frames_of_def)
  from trigger_publish_holds [OF _ m ne, of dec quiet] codec h(2) obtain bytes where
    u: "unpack dec bytes = Some (collection_value (host_clock h) (message_counter ?t) (frames_of es))"
    and t: "trigger_publish_callback h quiet ?t = Inr ((publishing bytes (message_counter ?t + 1) ?t)
      \<lparr>messages := message_list_clear (messages ?t)\<rparr>)"
    by (auto simp: quiet_def)
  let ?s4 = "(publishing bytes (message_counter ?t + 1) ?t)\<lparr>messages := message_list_clear (messages ?t)\<rparr>"
  have r4: "running enc [] l2 ?s4"
    using running_clear [of enc "frames_of es" l2 "publishing bytes (message_counter ?t + 1) ?t"] rt
    by (simp add: publishing_running)
  have "run_job h frames tid quiet (native ?a3) = Inr ?s4" using t s3 by (simp add: run_job_def)
  moreover have "queued_message_count (messages ?s4) = 0"
    using holds_count [of enc "[]" "messages ?s4"] r4 by (simp add: running_def)
  moreover from on have "iv_server_running (inst (?a3\<lparr>native := ?s4\<rparr>))" by simp
  from stop_running [OF _ this, of enc "[]" l2] r4 have
    "\<exists>a5. stop (?a3\<lparr>native := ?s4\<rparr>) = Inr (Returned True, a5)" by simp
  ultimately show ?thesis using s2(1) d3 u by fastforce
qed


theorem session_end_to_end_witness:
  "\<exists>a1 s2 a3 s4 bytes.
     start example_zmq (no_options\<lparr>enable_object_trace := True\<rparr>) (new_app example_instance server_init)
       = Inr (Returned True, a1)
    \<and> fire_all [(example_host, Gc_started)] (native a1) = Inr s2
    \<and> dispatch_step (example_env\<lparr>env_now := 2000000000\<rparr>) At_dispatch_timer (a1\<lparr>native := s2\<rparr>) = Inr (At_top, a3)
    \<and> run_job example_host example_frames 9 quiet (native a3) = Inr s4
    \<and> unpack ref_dec bytes = Some (collection_value example_clock (message_counter s2)
        [VMap [(VInt 0, VInt 2), (VInt 1, VDouble 1500)]])
    \<and> queued_message_count (messages s4) = 0"
proof -
  let ?opts = "no_options\<lparr>enable_object_trace := True\<rparr>" and ?a = "new_app example_instance server_init"
    and ?e = "example_env\<lparr>env_now := 2000000000\<rparr>" and ?es = "[(example_host, Gc_started)]"
  have o: "options_ok ?opts" "enable_object_trace ?opts" "\<not> enable_cpu_profiling ?opts"
    by (simp_all add: options_ok_def no_options_def truthy_def)
  have n: "\<not> iv_server_running (inst ?a)" by (simp add: new_app_def example_instance_def)
  from example_started [OF o(1)] obtain a1 where a1: "start example_zmq ?opts ?a = Inr (Returned True, a1)" by blast
  have i: "native ?a = server_init" "iv_pub_port (inst ?a) = 5555" "iv_request_port (inst ?a) = 5556"
    by (simp_all add: new_app_def example_instance_def server_init_def)
  from start_tracing_native [OF n o(2,3) a1] obtain s0 where
    s0: "start_stat_server example_zmq (Some 5555) (Some 5556) server_init = Inr (True, s0)"
      "start_stat_tracing s0 = Inr (native a1)"
      "iv_message_dispatch_timer (inst a1) = iv_message_dispatch_timer (inst ?a)" unfolding i by blast
  from start_short [OF stopped_init example_binds, of 5555 5556] s0(1)
  have j0: "jobs s0 = []" "\<not> test_mode_enabled s0" by (auto simp: server_init_def)
  from start_stat_server_result [OF stopped_init s0(1), of ref_enc] obtain l0 where "running ref_enc [] l0 s0" by auto
  from start_stat_tracing_running [OF this] s0(2) have
    fr: "native a1 = s0\<lparr>tracepoints := tracepoints (native a1), logger := logger (native a1)\<rparr>" by auto
  have j: "jobs (native a1) = []" "\<not> test_mode_enabled (native a1)" "0 < job_capacity (env_host ?e)"
    by (subst fr, simp add: j0, subst fr, simp add: j0, simp add: example_env_def example_host_def)
  have es: "vm_all_ok ref_enc ?es" "?es \<noteq> []" "length ?es < 400"
    "list_all (\<lambda>(h, ev). 0 < job_capacity h) ?es" "host_enc example_host = ref_enc"
    by (simp_all add: vm_all_ok_def example_host_def)
  have bytes: "vm_bytes ref_enc ?es \<le> 2 ^ 63"
    by (simp add: vm_bytes_def pack_event_header_only_def pack_event_header_def pack_timestamp_def)
  have due: "timer_due (env_now ?e) (iv_message_dispatch_timer (inst a1))"
    using s0(3) by (simp add: timer_due_def new_app_def example_instance_def)
  have frames: "frames_of ?es = [VMap [(VInt 0, VInt 2), (VInt 1, VDouble 1500)]]"
    "host_clock example_host = example_clock"
    by (simp_all add: frames_of_def frame_simps example_host_def example_clock_def example_vm_def
      get_wall_time_in_msec_def wall_msec_def)
  from session_end_to_end [OF ref_codec example_new example_calm n o a1 es(1-3) bytes j es(4,5) due,
      of example_frames 9] a1
  show ?thesis unfolding frames by blast
qed

end
